theory Spec2Isabelle
  imports Main
begin

section \<open>Data model\<close>

text \<open>
  The module \<^verbatim>\<open>pulp/server/content/sources/warehouse.py\<close> defines the content
  warehouse (\<^verbatim>\<open>ContentWarehouse\<close>) and the bridge between the transport and the
  caller's listener (\<^verbatim>\<open>NectarListener\<close>). Python objects that are mutated in
  place and shared by reference (the \<^verbatim>\<open>Request\<close> objects of a request list) live
  in an explicit heap; the calls made to external collaborators (transport, catalog, listener,
  logger) are recorded, in order, in a list of events.
\<close>

type_synonym source_id = string

type_synonym request_ref = nat

datatype source = ContentSource source_id | PrimarySource

text \<open>
  \<^verbatim>\<open>RefreshReport(source_id, url)\<close>: the report starts with an empty list of errors;
  the third field is that list.
\<close>

datatype RefreshReport = RefreshReport source_id string "string list"

text \<open>
  Modelled from the spec: the class \<^verbatim>\<open>Request\<close> of
  \<^verbatim>\<open>pulp.server.content.sources.model\<close> is not part of the sources at hand. The
  spec gives it a destination, the flag \<^verbatim>\<open>downloaded\<close>, the ordered list
  \<^verbatim>\<open>errors\<close>, an ordered list of candidates (source, address) and a cursor into
  that list.
\<close>

record Request =
  destination :: string
  downloaded :: bool
  errors :: "string list"
  candidates :: "(source \<times> string) list"
  cursor :: nat

text \<open>
  Modelled from the spec: \<^verbatim>\<open>next_source()\<close> ``returns the next unconsumed candidate
  and advances the cursor, or signals exhaustion (None) when the list is consumed; returns None
  immediately if downloaded is already true''. The result is the returned value and the
  object after the call.
\<close>

definition next_source :: "Request \<Rightarrow> (source \<times> string) option \<times> Request" where
  "next_source r =
     (if downloaded r then (None, r)
      else if cursor r < length (candidates r)
           then (Some (candidates r ! cursor r), r\<lparr>cursor := cursor r + 1\<rparr>)
           else (None, r))"

text \<open>
  Modelled from the spec: \<^verbatim>\<open>has_source()\<close> is ``true iff the cursor has not yet
  reached the end of the candidate list''.
\<close>

definition has_source :: "Request \<Rightarrow> bool" where
  "has_source r \<longleftrightarrow> cursor r < length (candidates r)"

text \<open>
  The transport's job \<^verbatim>\<open>DownloadRequest(url, destination, data=request)\<close> and the
  part of its \<^verbatim>\<open>DownloadReport\<close> that the bridge reads.
\<close>

datatype DownloadRequest = DownloadRequest string string request_ref

record DownloadReport =
  data :: request_ref
  error_msg :: string

text \<open>
  A call of a collaborator either returns or raises an instance of \<^verbatim>\<open>Exception\<close>,
  of which the text is kept.
\<close>

datatype outcome = Returned | Raised string

text \<open>
  The caller's \<^verbatim>\<open>Listener\<close>: each method is given the request object, and may
  depend on the contents the object has at the moment of the call. A method is taken to leave
  the requests as they are; what it does is to return or to raise.
\<close>

type_synonym callback = "request_ref \<Rightarrow> Request \<Rightarrow> outcome"

record Listener =
  download_started :: callback
  download_succeeded :: callback
  download_failed :: callback

datatype listener_method = Started | Succeeded | Failed

datatype event =
    Downloader_cancel source
  | Listener_call listener_method request_ref Request
  | Log_exception listener_method
  | Downloader_download source "DownloadRequest list"
  | Source_refresh source_id
  | Log_error source_id string
  | Purge_expired

text \<open>
  \<^verbatim>\<open>ContentWarehouse\<close>: the dictionary of sources is kept as the list of its
  items, in the order in which the dictionary yields them.
\<close>

record ContentWarehouse =
  sources :: "(source_id \<times> source) list"
  listener :: "Listener option"
  cancelled :: bool

record state =
  warehouse :: ContentWarehouse
  heap :: "request_ref \<Rightarrow> Request"
  calls :: "event list"

definition called :: "event \<Rightarrow> state \<Rightarrow> state" where
  "called e s = s\<lparr>calls := calls s @ [e]\<rparr>"

definition cancel :: "state \<Rightarrow> state" where
  "cancel s = s\<lparr>warehouse := (warehouse s)\<lparr>cancelled := True\<rparr>\<rparr>"

definition reset :: "state \<Rightarrow> state" where
  "reset s = s\<lparr>warehouse := (warehouse s)\<lparr>cancelled := False\<rparr>\<rparr>"

section \<open>The bridge between transport and listener\<close>

text \<open>
  \<^verbatim>\<open>method(request)\<close>: the call of a listener method is recorded together with
  the contents of the request at that moment; its outcome is the callback's.
\<close>

definition invoke :: "listener_method \<times> callback \<Rightarrow> request_ref \<Rightarrow> state \<Rightarrow> outcome \<times> state" where
  "invoke m request s =
     (snd m request (heap s request),
      called (Listener_call (fst m) request (heap s request)) s)"

text \<open>
  \<^verbatim>\<open>NectarListener._notify\<close>:
  \<^verbatim>\<open>try: method(request)  except Exception: log.exception(str(method))\<close>.
\<close>

definition notify :: "listener_method \<times> callback \<Rightarrow> request_ref \<Rightarrow> state \<Rightarrow> outcome \<times> state" where
  "notify m request s =
     (case invoke m request s of
        (Returned, s') \<Rightarrow> (Returned, s')
      | (Raised e, s') \<Rightarrow> (Returned, called (Log_exception (fst m)) s'))"

text \<open>
  The three handlers of \<^verbatim>\<open>NectarListener\<close>. The bridge holds the warehouse (the one
  of the state) and the downloader it is bound to, named by its source.
\<close>

definition NectarListener_download_started ::
    "source \<Rightarrow> DownloadReport \<Rightarrow> state \<Rightarrow> outcome \<times> state" where
  "NectarListener_download_started downloader report s =
     (if cancelled (warehouse s) then (Returned, called (Downloader_cancel downloader) s)
      else
        let request = data report in
        case listener (warehouse s) of
          None \<Rightarrow> (Returned, s)
        | Some l \<Rightarrow> notify (Started, download_started l) request s)"

definition NectarListener_download_succeeded ::
    "source \<Rightarrow> DownloadReport \<Rightarrow> state \<Rightarrow> outcome \<times> state" where
  "NectarListener_download_succeeded downloader report s =
     (if cancelled (warehouse s) then (Returned, called (Downloader_cancel downloader) s)
      else
        let request = data report;
            s1 = s\<lparr>heap := (heap s)(request := (heap s request)\<lparr>downloaded := True\<rparr>)\<rparr>
        in
        case listener (warehouse s1) of
          None \<Rightarrow> (Returned, s1)
        | Some l \<Rightarrow> notify (Succeeded, download_succeeded l) request s1)"

definition NectarListener_download_failed ::
    "source \<Rightarrow> DownloadReport \<Rightarrow> state \<Rightarrow> outcome \<times> state" where
  "NectarListener_download_failed downloader report s =
     (if cancelled (warehouse s) then (Returned, called (Downloader_cancel downloader) s)
      else
        let request = data report;
            s1 = s\<lparr>heap := (heap s)(request :=
                    (heap s request)\<lparr>errors := errors (heap s request) @ [error_msg report]\<rparr>)\<rparr>
        in
        case listener (warehouse s1) of
          None \<Rightarrow> (Returned, s1)
        | Some l \<Rightarrow>
            if has_source (heap s1 request) then (Returned, s1)
            else notify (Failed, download_failed l) request s1)"

section \<open>Collation of a request list\<close>

text \<open>
  The dictionary built by \<^verbatim>\<open>collated\<close> maps a source to the list of jobs for its
  downloader. It is kept as the list of its items, a key being entered at the end when it is
  first used. (The order in which a Python 2 dictionary yields its items is not fixed; no
  statement below depends on it.)
\<close>

type_synonym collation = "(source \<times> DownloadRequest list) list"

text \<open>
  \<^verbatim>\<open>nectar_list = collated.setdefault(key, []); nectar_list.append(job)\<close>
\<close>

fun setdefault_append :: "source \<Rightarrow> DownloadRequest \<Rightarrow> collation \<Rightarrow> collation" where
  "setdefault_append key job [] = [(key, [job])]"
| "setdefault_append key job ((k, nectar_list) # items) =
     (if k = key then (k, nectar_list @ [job]) # items
      else (k, nectar_list) # setdefault_append key job items)"

text \<open>The jobs a collation holds for a source: \<^verbatim>\<open>collated.get(key, [])\<close>.\<close>

definition jobs_for :: "collation \<Rightarrow> source \<Rightarrow> DownloadRequest list" where
  "jobs_for c key = (case map_of c key of None \<Rightarrow> [] | Some nectar_list \<Rightarrow> nectar_list)"

text \<open>
  The loop of \<^verbatim>\<open>ContentWarehouse.collated\<close> over the request list, with the
  dictionary built so far and the heap of request objects, which \<^verbatim>\<open>next_source()\<close>
  mutates.
\<close>

fun collated_loop ::
    "request_ref list \<Rightarrow> collation \<Rightarrow> (request_ref \<Rightarrow> Request) \<Rightarrow> collation \<times> (request_ref \<Rightarrow> Request)" where
  "collated_loop [] c h = (c, h)"
| "collated_loop (request # rest) c h =
     (if downloaded (h request) then collated_loop rest c h
      else
        case next_source (h request) of
          (None, r') \<Rightarrow> collated_loop rest c (h(request := r'))
        | (Some source, r') \<Rightarrow>
            collated_loop rest
              (setdefault_append (fst source)
                 (DownloadRequest (snd source) (destination r') request) c)
              (h(request := r')))"

definition collated :: "request_ref list \<Rightarrow> (request_ref \<Rightarrow> Request) \<Rightarrow> collation \<times> (request_ref \<Rightarrow> Request)" where
  "collated request_list h = collated_loop request_list [] h"

section \<open>The environment of the warehouse\<close>

text \<open>
  What the transport delivers to the bridge while a batch is in flight: the three events, and
  the moments at which the warehouse's owner calls \<^verbatim>\<open>cancel()\<close> from elsewhere.
\<close>

datatype transport_event =
    Fire_started DownloadReport
  | Fire_succeeded DownloadReport
  | Fire_failed DownloadReport
  | Cancel_requested

text \<open>
  The collaborators of the warehouse, none of which is part of the module:
  \<^item> \<open>has_entries\<close>: the catalog manager's \<^verbatim>\<open>has_entries(source_id)\<close>;
  \<^item> \<open>source_refresh\<close>: what \<^verbatim>\<open>source.refresh()\<close> does, returning a list of
    reports (\<open>Inr\<close>) or raising an exception with the given text (\<open>Inl\<close>);
  \<^item> \<open>cancel_arrives i\<close>: \<^verbatim>\<open>cancel()\<close> is called from elsewhere after the refresh
    loop has left \<open>i\<close> sources behind and before it reads the flag again;
  \<^item> \<open>find_sources\<close>: \<^verbatim>\<open>Request.find_sources(primary, sources)\<close>, as a function
    of the request object;
  \<^item> \<open>transport n source jobs\<close>: the events that the downloader of \<open>source\<close> delivers
    for the batch \<open>jobs\<close> dispatched in round \<open>n\<close>. Downloaders report failures through
    events; \<^verbatim>\<open>download(jobs)\<close> itself returns.
\<close>

record environment =
  has_entries :: "source_id \<Rightarrow> bool"
  source_refresh :: "source \<Rightarrow> string + RefreshReport list"
  cancel_arrives :: "nat \<Rightarrow> bool"
  find_sources :: "source \<Rightarrow> (source_id \<times> source) list \<Rightarrow> Request \<Rightarrow> Request"
  transport :: "nat \<Rightarrow> source \<Rightarrow> DownloadRequest list \<Rightarrow> transport_event list"

definition interrupt :: "environment \<Rightarrow> nat \<Rightarrow> state \<Rightarrow> state" where
  "interrupt env i s = (if cancel_arrives env i then cancel s else s)"

section \<open>Refreshing the catalog\<close>

text \<open>
  The loop of \<^verbatim>\<open>ContentWarehouse.refresh\<close> over the items of
  \<^verbatim>\<open>self.sources\<close>; \<open>i\<close> counts the items left behind. The bare
  \<^verbatim>\<open>return\<close> under \<^verbatim>\<open>if self.cancelled\<close> returns \<^verbatim>\<open>None\<close>;
  \<^verbatim>\<open>return reports\<close> follows the call of \<^verbatim>\<open>catalog.purge_expired()\<close>.
\<close>

fun refresh_loop ::
    "environment \<Rightarrow> bool \<Rightarrow> nat \<Rightarrow> (source_id \<times> source) list \<Rightarrow> RefreshReport list \<Rightarrow> state
      \<Rightarrow> RefreshReport list option \<times> state" where
  "refresh_loop env force i [] reports s =
     (Some reports, called Purge_expired (interrupt env i s))"
| "refresh_loop env force i ((source_id, source) # rest) reports s =
     (let s0 = interrupt env i s in
      if cancelled (warehouse s0) then (None, s0)
      else if force \<or> \<not> has_entries env source_id then
        (case source_refresh env source of
           Inr report \<Rightarrow>
             refresh_loop env force (Suc i) rest (reports @ report)
               (called (Source_refresh source_id) s0)
         | Inl e \<Rightarrow>
             refresh_loop env force (Suc i) rest
               (reports @ [RefreshReport source_id '''' [e]])
               (called (Log_error source_id e) (called (Source_refresh source_id) s0)))
      else refresh_loop env force (Suc i) rest reports s0)"

definition refresh :: "environment \<Rightarrow> bool \<Rightarrow> state \<Rightarrow> RefreshReport list option \<times> state" where
  "refresh env force s = refresh_loop env force 0 (sources (warehouse (reset s))) [] (reset s)"

section \<open>Downloading\<close>

definition fire :: "source \<Rightarrow> transport_event \<Rightarrow> state \<Rightarrow> outcome \<times> state" where
  "fire downloader e s =
     (case e of
        Fire_started report \<Rightarrow> NectarListener_download_started downloader report s
      | Fire_succeeded report \<Rightarrow> NectarListener_download_succeeded downloader report s
      | Fire_failed report \<Rightarrow> NectarListener_download_failed downloader report s
      | Cancel_requested \<Rightarrow> (Returned, cancel s))"

text \<open>
  The events of one batch, in the order of their delivery. An exception that left a handler
  would end the delivery.
\<close>

fun deliver :: "source \<Rightarrow> transport_event list \<Rightarrow> state \<Rightarrow> outcome \<times> state" where
  "deliver downloader [] s = (Returned, s)"
| "deliver downloader (e # es) s =
     (case fire downloader e s of
        (Returned, s') \<Rightarrow> deliver downloader es s'
      | (Raised x, s') \<Rightarrow> (Raised x, s'))"

text \<open>
  \<^verbatim>\<open>for source, nectar_list in collated.items()\<close>: the downloader of the source
  gets a bridge of its own and the batch.
\<close>

fun dispatch :: "environment \<Rightarrow> nat \<Rightarrow> collation \<Rightarrow> state \<Rightarrow> outcome \<times> state" where
  "dispatch env n [] s = (Returned, s)"
| "dispatch env n ((source, nectar_list) # rest) s =
     (case deliver source (transport env n source nectar_list)
             (called (Downloader_download source nectar_list) s) of
        (Returned, s') \<Rightarrow> dispatch env n rest s'
      | (Raised x, s') \<Rightarrow> (Raised x, s'))"

text \<open>
  \<^verbatim>\<open>for request in request_list: request.find_sources(primary, self.sources)\<close>
\<close>

definition find_all :: "environment \<Rightarrow> source \<Rightarrow> request_ref list \<Rightarrow> state \<Rightarrow> state" where
  "find_all env primary request_list s =
     fold (\<lambda>request s'. s'\<lparr>heap := (heap s')(request :=
             find_sources env primary (sources (warehouse s')) (heap s' request))\<rparr>)
       request_list s"

text \<open>
  The rounds of \<^verbatim>\<open>ContentWarehouse.download\<close>:
  \<^verbatim>\<open>while not self.cancelled: ...\<close>; \<open>n\<close> counts the rounds.
\<close>

definition remaining :: "(request_ref \<Rightarrow> Request) \<Rightarrow> request_ref \<Rightarrow> nat" where
  "remaining h r = length (candidates (h r)) - cursor (h r)"

function download_loop :: "environment \<Rightarrow> nat \<Rightarrow> request_ref list \<Rightarrow> state \<Rightarrow> outcome \<times> state" where
  "download_loop env n request_list s =
     (if cancelled (warehouse s) then (Returned, s)
      else if fst (collated request_list (heap s)) = []
           then (Returned, s\<lparr>heap := snd (collated request_list (heap s))\<rparr>)
      else
        let round = dispatch env n (fst (collated request_list (heap s)))
                      (s\<lparr>heap := snd (collated request_list (heap s))\<rparr>)
        in if fst round = Returned then download_loop env (Suc n) request_list (snd round)
           else round)"
  by pat_completeness auto

text \<open>
  \<^verbatim>\<open>ContentWarehouse.download\<close>. The primary source wraps the downloader given by
  the caller; the list returned by \<^verbatim>\<open>refresh()\<close> is dropped.
\<close>

definition download :: "environment \<Rightarrow> request_ref list \<Rightarrow> state \<Rightarrow> outcome \<times> state" where
  "download env request_list s =
     (let s1 = reset s;
          s2 = snd (refresh env False s1);
          primary = PrimarySource;
          s3 = find_all env primary request_list s2
      in download_loop env 0 request_list s3)"


section \<open>Notions used in the statements\<close>

text \<open>The calls made between a state and a later one.\<close>

definition new_calls :: "state \<Rightarrow> state \<Rightarrow> event list" where
  "new_calls s s' = drop (length (calls s)) (calls s')"

text \<open>The later state has the calls of the earlier one, and maybe more.\<close>

definition grows :: "state \<Rightarrow> state \<Rightarrow> bool" where
  "grows s s' \<longleftrightarrow> (\<exists>new. calls s' = calls s @ new)"

text \<open>
  What one item of \<^verbatim>\<open>self.sources\<close> adds to the reports, and to the calls, of a pass
  that reaches it.
\<close>

definition reports_of :: "environment \<Rightarrow> bool \<Rightarrow> source_id \<times> source \<Rightarrow> RefreshReport list" where
  "reports_of env force item =
     (if force \<or> \<not> has_entries env (fst item)
      then (case source_refresh env (snd item) of
              Inr report \<Rightarrow> report
            | Inl e \<Rightarrow> [RefreshReport (fst item) '''' [e]])
      else [])"

definition calls_of :: "environment \<Rightarrow> bool \<Rightarrow> source_id \<times> source \<Rightarrow> event list" where
  "calls_of env force item =
     (if force \<or> \<not> has_entries env (fst item)
      then Source_refresh (fst item)
           # (case source_refresh env (snd item) of
                Inr report \<Rightarrow> []
              | Inl e \<Rightarrow> [Log_error (fst item) e])
      else [])"

text \<open>
  The jobs that a request with contents \<open>q\<close> adds for the source \<open>key\<close>: none when it
  is downloaded or has no candidate left, one when its next candidate is of that source.
\<close>

definition contribution :: "Request \<Rightarrow> request_ref \<Rightarrow> source \<Rightarrow> DownloadRequest list" where
  "contribution q request key =
     (if downloaded q then []
      else case fst (next_source q) of
             None \<Rightarrow> []
           | Some candidate \<Rightarrow>
               if fst candidate = key
               then [DownloadRequest (snd candidate) (destination q) request]
               else [])"

text \<open>Some batch is interrupted by a call of \<^verbatim>\<open>cancel()\<close>.\<close>

definition cancel_requested :: "environment \<Rightarrow> bool" where
  "cancel_requested env \<longleftrightarrow> (\<exists>n source jobs. Cancel_requested \<in> set (transport env n source jobs))"


section \<open>Scenarios\<close>

text \<open>
  A request for one unit with an alternate source and the primary source as candidates, of
  which \<open>n\<close> have been handed out; listeners whose methods all return, or all raise; a
  warehouse at rest; and a report of the transport about request \<open>0\<close>.
\<close>

definition pkg :: "nat \<Rightarrow> Request" where
  "pkg n = \<lparr>destination = ''/var/lib/pkg-1'', downloaded = False, errors = [],
            candidates = [(ContentSource ''a'', ''http://a/pkg-1''),
                          (PrimarySource, ''http://origin/pkg-1'')],
            cursor = n\<rparr>"

definition quiet :: Listener where
  "quiet = \<lparr>download_started = (\<lambda>_ _. Returned), download_succeeded = (\<lambda>_ _. Returned),
             download_failed = (\<lambda>_ _. Returned)\<rparr>"

definition faulty :: Listener where
  "faulty = \<lparr>download_started = (\<lambda>_ _. Raised ''oops''),
              download_succeeded = (\<lambda>_ _. Raised ''oops''),
              download_failed = (\<lambda>_ _. Raised ''oops'')\<rparr>"

definition idle :: "Listener option \<Rightarrow> bool \<Rightarrow> Request \<Rightarrow> state" where
  "idle l c q = \<lparr>warehouse = \<lparr>sources = [], listener = l, cancelled = c\<rparr>,
                 heap = (\<lambda>_. q), calls = []\<rparr>"

definition failure :: DownloadReport where
  "failure = \<lparr>data = 0, error_msg = ''404''\<rparr>"

text \<open>
  Three requests on a heap: \<open>0\<close> is downloaded, \<open>1\<close> has used up its candidates,
  \<open>2\<close> has not been tried yet.
\<close>

definition shelf :: "request_ref \<Rightarrow> Request" where
  "shelf = (\<lambda>_. pkg 2)(0 := (pkg 0)\<lparr>downloaded := True\<rparr>, 2 := pkg 0)"

text \<open>
  A warehouse with two sources, and three environments: in \<open>calm\<close> nobody cancels, the
  first source reports and the second fails; in \<open>hasty\<close>, \<^verbatim>\<open>cancel()\<close> is called
  while the first source is refreshed; in \<open>stormy\<close> every source fails as well.
\<close>

definition mirrors :: "(source_id \<times> source) list" where
  "mirrors = [(''a'', ContentSource ''a''), (''b'', ContentSource ''b'')]"

definition depot :: state where
  "depot = \<lparr>warehouse = \<lparr>sources = mirrors, listener = None, cancelled = False\<rparr>,
            heap = (\<lambda>_. pkg 0), calls = []\<rparr>"

definition calm :: environment where
  "calm = \<lparr>has_entries = (\<lambda>_. False),
           source_refresh = (\<lambda>source. if source = ContentSource ''a''
                                then Inr [RefreshReport ''a'' ''http://a/'' []]
                                else Inl ''timed out''),
           cancel_arrives = (\<lambda>_. False),
           find_sources = (\<lambda>_ _ q. q),
           transport = (\<lambda>_ _ _. [])\<rparr>"

definition hasty :: environment where
  "hasty = calm\<lparr>cancel_arrives := (\<lambda>i. i = 1)\<rparr>"

definition stormy :: environment where
  "stormy = calm\<lparr>source_refresh := (\<lambda>_. Inl ''boom''), cancel_arrives := (\<lambda>i. i = 1)\<rparr>"

text \<open>
  An environment in which every alternate source fails with ``404'' and the primary source
  succeeds.
\<close>

definition relay :: environment where
  "relay = calm\<lparr>transport := (\<lambda>n source jobs.
       map (\<lambda>job. case job of DownloadRequest address target request \<Rightarrow>
              if source = PrimarySource then Fire_succeeded \<lparr>data = request, error_msg = []\<rparr>
              else Fire_failed \<lparr>data = request, error_msg = ''404''\<rparr>) jobs)\<rparr>"


section \<open>The rounds come to an end\<close>

lemma heap_called [simp]: "heap (called e s) = heap s"
  by (simp add: called_def)

lemma heap_cancel [simp]: "heap (cancel s) = heap s"
  by (simp add: cancel_def)

lemma heap_notify [simp]: "heap (snd (notify m r s)) = heap s"
  by (simp add: notify_def invoke_def split: outcome.splits)

lemma remaining_started:
  "remaining (heap (snd (NectarListener_download_started d rep s))) = remaining (heap s)"
  by (simp add: NectarListener_download_started_def Let_def split: option.splits)

lemma remaining_succeeded:
  "remaining (heap (snd (NectarListener_download_succeeded d rep s))) = remaining (heap s)"
  by (auto simp add: NectarListener_download_succeeded_def Let_def remaining_def fun_eq_iff
      split: option.splits)

lemma remaining_failed:
  "remaining (heap (snd (NectarListener_download_failed d rep s))) = remaining (heap s)"
  by (auto simp add: NectarListener_download_failed_def Let_def remaining_def fun_eq_iff
      split: option.splits)

lemma remaining_fire:
  "remaining (heap (snd (fire d e s))) = remaining (heap s)"
  by (cases e) (simp_all add: fire_def remaining_started remaining_succeeded remaining_failed)

lemma remaining_deliver:
  "remaining (heap (snd (deliver d es s))) = remaining (heap s)"
proof (induction es arbitrary: s)
  case Nil
  show ?case by simp
next
  case (Cons e es)
  obtain out s' where f: "fire d e s = (out, s')" by (cases "fire d e s")
  have r: "remaining (heap s') = remaining (heap s)"
    using remaining_fire [of d e s] f by simp
  show ?case
  proof (cases out)
    case Returned
    then show ?thesis using f r Cons.IH [of s'] by simp
  next
    case (Raised x)
    then show ?thesis using f r by simp
  qed
qed

lemma remaining_dispatch:
  "remaining (heap (snd (dispatch env n c s))) = remaining (heap s)"
proof (induction c arbitrary: s)
  case Nil
  show ?case by simp
next
  case (Cons item rest)
  obtain source nectar_list where item: "item = (source, nectar_list)" by (cases item)
  let ?s0 = "called (Downloader_download source nectar_list) s"
  obtain out s' where f: "deliver source (transport env n source nectar_list) ?s0 = (out, s')"
    by (cases "deliver source (transport env n source nectar_list) ?s0")
  have r: "remaining (heap s') = remaining (heap s)"
    using remaining_deliver [of source "transport env n source nectar_list" ?s0] f by simp
  show ?case
  proof (cases out)
    case Returned
    then show ?thesis using f r item Cons.IH [of s'] by simp
  next
    case (Raised x)
    then show ?thesis using f r item by simp
  qed
qed

lemma remaining_next_source:
  "length (candidates (snd (next_source q))) - cursor (snd (next_source q))
     \<le> length (candidates q) - cursor q"
  by (auto simp add: next_source_def)

lemma collated_loop_remaining_le:
  "remaining (snd (collated_loop rl c h)) r \<le> remaining h r"
proof (induction rl arbitrary: c h)
  case Nil
  show ?case by simp
next
  case (Cons request rest)
  show ?case
  proof (cases "downloaded (h request)")
    case True
    have "remaining (snd (collated_loop rest c h)) r \<le> remaining h r" by (rule Cons.IH)
    then show ?thesis using True by simp
  next
    case False
    obtain v r' where ns: "next_source (h request) = (v, r')" by (cases "next_source (h request)")
    let ?h = "h(request := r')"
    have step: "remaining ?h r \<le> remaining h r"
      using remaining_next_source [of "h request"] ns by (simp add: remaining_def)
    show ?thesis
    proof (cases v)
      case None
      have "remaining (snd (collated_loop rest c ?h)) r \<le> remaining ?h r" by (rule Cons.IH)
      then have "remaining (snd (collated_loop rest c ?h)) r \<le> remaining h r"
        using step by (rule order_trans)
      then show ?thesis using False ns None by simp
    next
      case (Some source)
      let ?c = "setdefault_append (fst source)
                 (DownloadRequest (snd source) (destination r') request) c"
      have "remaining (snd (collated_loop rest ?c ?h)) r \<le> remaining ?h r" by (rule Cons.IH)
      then have "remaining (snd (collated_loop rest ?c ?h)) r \<le> remaining h r"
        using step by (rule order_trans)
      then show ?thesis using False ns Some by simp
    qed
  qed
qed

lemma setdefault_append_not_Nil [simp]: "setdefault_append k j c \<noteq> []"
  by (cases c) (auto split: if_splits)

lemma collated_loop_advances:
  "fst (collated_loop rl c h) \<noteq> c \<Longrightarrow>
     \<exists>r \<in> set rl. remaining (snd (collated_loop rl c h)) r < remaining h r"
proof (induction rl arbitrary: c h)
  case Nil
  then show ?case by simp
next
  case (Cons request rest)
  show ?case
  proof (cases "downloaded (h request)")
    case True
    then show ?thesis using Cons.IH [of c h] Cons.prems by auto
  next
    case False
    obtain v r' where ns: "next_source (h request) = (v, r')" by (cases "next_source (h request)")
    show ?thesis
    proof (cases v)
      case None
      have same: "r' = h request"
        using ns None by (auto simp: next_source_def split: if_splits)
      then have "h(request := r') = h" by simp
      then show ?thesis
        using False ns None Cons.IH [of c h] Cons.prems by auto
    next
      case (Some source)
      let ?c = "setdefault_append (fst source)
                 (DownloadRequest (snd source) (destination r') request) c"
      let ?h = "h(request := r')"
      have adv: "remaining ?h request < remaining h request"
        using ns Some False by (auto simp: next_source_def remaining_def split: if_splits)
      have "remaining (snd (collated_loop rest ?c ?h)) request \<le> remaining ?h request"
        by (rule collated_loop_remaining_le)
      then have "remaining (snd (collated_loop (request # rest) c h)) request < remaining h request"
        using adv False ns Some by simp
      then show ?thesis by auto
    qed
  qed
qed

lemma collated_round_decreases:
  assumes "fst (collated rl h) \<noteq> []"
  shows "sum (remaining (snd (collated rl h))) (set rl) < sum (remaining h) (set rl)"
proof (rule sum_strict_mono_ex1)
  show "finite (set rl)" by simp
  show "\<forall>r\<in>set rl. remaining (snd (collated rl h)) r \<le> remaining h r"
    by (simp add: collated_def collated_loop_remaining_le)
  show "\<exists>r\<in>set rl. remaining (snd (collated rl h)) r < remaining h r"
    using assms collated_loop_advances [of rl "[]" h] by (simp add: collated_def)
qed

text \<open>
  Every round that dispatches a batch has moved the cursor of a request forward, and no handler
  of the bridge moves a cursor: the rounds come to an end.
\<close>

termination download_loop
proof (relation "measure (\<lambda>(env, n, rl, s). sum (remaining (heap s)) (set rl))")
  show "wf (measure (\<lambda>(env, n, rl, s). sum (remaining (heap s)) (set rl)))" by simp
next
  fix env :: environment and n :: nat and request_list :: "request_ref list" and s :: state
    and x :: "outcome \<times> state"
  assume nc: "\<not> cancelled (warehouse s)"
    and ne: "fst (collated request_list (heap s)) \<noteq> []"
    and x: "x = dispatch env n (fst (collated request_list (heap s)))
                  (s\<lparr>heap := snd (collated request_list (heap s))\<rparr>)"
    and "fst x = Returned"
  have "remaining (heap (snd x)) = remaining (snd (collated request_list (heap s)))"
    using remaining_dispatch [of env n "fst (collated request_list (heap s))"
        "s\<lparr>heap := snd (collated request_list (heap s))\<rparr>"] x by simp
  then show "((env, Suc n, request_list, snd x), env, n, request_list, s)
       \<in> measure (\<lambda>(env, n, rl, s). sum (remaining (heap s)) (set rl))"
    using collated_round_decreases [OF ne] by simp
qed

declare download_loop.simps [simp del]

section \<open>Properties of the bridge\<close>

lemmas bridge_defs = NectarListener_download_started_def NectarListener_download_succeeded_def
  NectarListener_download_failed_def notify_def invoke_def called_def Let_def

lemma notify_returns [simp]: "fst (notify m r s) = Returned"
  by (simp add: notify_def invoke_def split: outcome.splits)

lemma started_returns [simp]: "fst (NectarListener_download_started d report s) = Returned"
  by (simp add: NectarListener_download_started_def Let_def split: option.splits)

lemma succeeded_returns [simp]: "fst (NectarListener_download_succeeded d report s) = Returned"
  by (simp add: NectarListener_download_succeeded_def Let_def split: option.splits)

lemma failed_returns [simp]: "fst (NectarListener_download_failed d report s) = Returned"
  by (simp add: NectarListener_download_failed_def Let_def split: option.splits)

lemma fire_returns [simp]: "fst (fire d e s) = Returned"
  by (cases e) (simp_all add: fire_def)

lemma deliver_returns [simp]: "fst (deliver d es s) = Returned"
proof (induction es arbitrary: s)
  case Nil
  show ?case by simp
next
  case (Cons e es)
  obtain out s' where f: "fire d e s = (out, s')" by (cases "fire d e s")
  then have "out = Returned" using fire_returns [of d e s] by simp
  then show ?case using f Cons.IH [of s'] by simp
qed

text \<open>
  C8: for every ``succeeded'' event: when the warehouse's cancellation flag is set, the bridge
  tells its downloader to cancel and returns, the request (and every other one) unchanged;
  otherwise it sets \<^verbatim>\<open>downloaded\<close> on the request of the report and then, when a
  listener is registered, calls its \<^verbatim>\<open>download_succeeded\<close> with the request so
  marked (an exception of the listener is logged).
\<close>

theorem download_succeeded_event:
  "(cancelled (warehouse s) \<longrightarrow>
      NectarListener_download_succeeded d report s = (Returned, called (Downloader_cancel d) s)
      \<and> heap (snd (NectarListener_download_succeeded d report s)) = heap s)
   \<and> (\<not> cancelled (warehouse s) \<longrightarrow>
      fst (NectarListener_download_succeeded d report s) = Returned
      \<and> warehouse (snd (NectarListener_download_succeeded d report s)) = warehouse s
      \<and> heap (snd (NectarListener_download_succeeded d report s))
          = (heap s)(data report := (heap s (data report))\<lparr>downloaded := True\<rparr>)
      \<and> calls (snd (NectarListener_download_succeeded d report s))
          = calls s @
            (case listener (warehouse s) of
               None \<Rightarrow> []
             | Some l \<Rightarrow>
                 Listener_call Succeeded (data report)
                   ((heap s (data report))\<lparr>downloaded := True\<rparr>)
                 # (case download_succeeded l (data report)
                           ((heap s (data report))\<lparr>downloaded := True\<rparr>) of
                      Returned \<Rightarrow> []
                    | Raised e \<Rightarrow> [Log_exception Succeeded])))"
  by (simp add: bridge_defs split: option.splits outcome.splits)

theorem download_succeeded_event_witness:
  "cancelled (warehouse (idle (Some quiet) True (pkg 1)))
   \<and> calls (snd (NectarListener_download_succeeded PrimarySource failure
               (idle (Some quiet) True (pkg 1)))) = [Downloader_cancel PrimarySource]
   \<and> \<not> downloaded (heap (snd (NectarListener_download_succeeded PrimarySource failure
               (idle (Some quiet) True (pkg 1)))) 0)
   \<and> \<not> cancelled (warehouse (idle (Some quiet) False (pkg 1)))
   \<and> downloaded (heap (snd (NectarListener_download_succeeded PrimarySource failure
               (idle (Some quiet) False (pkg 1)))) 0)
   \<and> calls (snd (NectarListener_download_succeeded PrimarySource failure
               (idle (Some quiet) False (pkg 1))))
       = [Listener_call Succeeded 0 ((pkg 1)\<lparr>downloaded := True\<rparr>)]"
  using download_succeeded_event [of "idle (Some quiet) True (pkg 1)" PrimarySource failure]
    download_succeeded_event [of "idle (Some quiet) False (pkg 1)" PrimarySource failure]
  by (simp add: idle_def quiet_def failure_def pkg_def called_def)

text \<open>
  C7: an exception raised by a method of the caller's listener is caught and logged by
  \<^verbatim>\<open>_notify\<close>. For each of the three events the handler of the bridge returns
  to the transport, and the calls it makes are exactly these: the downloader's
  \<^verbatim>\<open>cancel()\<close> when the flag is set; otherwise, when the event is forwarded, the
  call of the listener's method, followed by the entry in the log when that call raises.
  The delivery of any sequence of events returns as well.
\<close>

theorem listener_exceptions_contained:
  "fst (invoke (m, cb) r s) = cb r (heap s r)
   \<and> notify (m, cb) r s
       = (Returned,
          case cb r (heap s r) of
            Returned \<Rightarrow> called (Listener_call m r (heap s r)) s
          | Raised e \<Rightarrow> called (Log_exception m) (called (Listener_call m r (heap s r)) s))
   \<and> fst (NectarListener_download_started d report s) = Returned
   \<and> calls (snd (NectarListener_download_started d report s))
       = calls s @
         (if cancelled (warehouse s) then [Downloader_cancel d]
          else case listener (warehouse s) of
                 None \<Rightarrow> []
               | Some l \<Rightarrow>
                   Listener_call Started (data report) (heap s (data report))
                   # (case download_started l (data report) (heap s (data report)) of
                        Returned \<Rightarrow> []
                      | Raised e \<Rightarrow> [Log_exception Started]))
   \<and> fst (NectarListener_download_succeeded d report s) = Returned
   \<and> calls (snd (NectarListener_download_succeeded d report s))
       = calls s @
         (if cancelled (warehouse s) then [Downloader_cancel d]
          else case listener (warehouse s) of
                 None \<Rightarrow> []
               | Some l \<Rightarrow>
                   Listener_call Succeeded (data report)
                     ((heap s (data report))\<lparr>downloaded := True\<rparr>)
                   # (case download_succeeded l (data report)
                             ((heap s (data report))\<lparr>downloaded := True\<rparr>) of
                        Returned \<Rightarrow> []
                      | Raised e \<Rightarrow> [Log_exception Succeeded]))
   \<and> fst (NectarListener_download_failed d report s) = Returned
   \<and> calls (snd (NectarListener_download_failed d report s))
       = calls s @
         (if cancelled (warehouse s) then [Downloader_cancel d]
          else case listener (warehouse s) of
                 None \<Rightarrow> []
               | Some l \<Rightarrow>
                   if has_source (heap s (data report)) then []
                   else
                     Listener_call Failed (data report)
                       ((heap s (data report))
                          \<lparr>errors := errors (heap s (data report)) @ [error_msg report]\<rparr>)
                     # (case download_failed l (data report)
                               ((heap s (data report))
                                  \<lparr>errors := errors (heap s (data report)) @ [error_msg report]\<rparr>) of
                          Returned \<Rightarrow> []
                        | Raised e \<Rightarrow> [Log_exception Failed]))
   \<and> fst (deliver d es s) = Returned"
proof -
  have n: "notify (m, cb) r s
       = (Returned,
          case cb r (heap s r) of
            Returned \<Rightarrow> called (Listener_call m r (heap s r)) s
          | Raised e \<Rightarrow> called (Log_exception m) (called (Listener_call m r (heap s r)) s))"
    by (simp add: notify_def invoke_def split: outcome.splits)
  have i: "fst (invoke (m, cb) r s) = cb r (heap s r)"
    by (simp add: invoke_def)
  have a: "calls (snd (NectarListener_download_started d report s))
       = calls s @
         (if cancelled (warehouse s) then [Downloader_cancel d]
          else case listener (warehouse s) of
                 None \<Rightarrow> []
               | Some l \<Rightarrow>
                   Listener_call Started (data report) (heap s (data report))
                   # (case download_started l (data report) (heap s (data report)) of
                        Returned \<Rightarrow> []
                      | Raised e \<Rightarrow> [Log_exception Started]))"
    by (simp add: bridge_defs split: option.splits outcome.splits)
  have b: "calls (snd (NectarListener_download_succeeded d report s))
       = calls s @
         (if cancelled (warehouse s) then [Downloader_cancel d]
          else case listener (warehouse s) of
                 None \<Rightarrow> []
               | Some l \<Rightarrow>
                   Listener_call Succeeded (data report)
                     ((heap s (data report))\<lparr>downloaded := True\<rparr>)
                   # (case download_succeeded l (data report)
                             ((heap s (data report))\<lparr>downloaded := True\<rparr>) of
                        Returned \<Rightarrow> []
                      | Raised e \<Rightarrow> [Log_exception Succeeded]))"
    by (simp add: bridge_defs split: option.splits outcome.splits)
  have c: "calls (snd (NectarListener_download_failed d report s))
       = calls s @
         (if cancelled (warehouse s) then [Downloader_cancel d]
          else case listener (warehouse s) of
                 None \<Rightarrow> []
               | Some l \<Rightarrow>
                   if has_source (heap s (data report)) then []
                   else
                     Listener_call Failed (data report)
                       ((heap s (data report))
                          \<lparr>errors := errors (heap s (data report)) @ [error_msg report]\<rparr>)
                     # (case download_failed l (data report)
                               ((heap s (data report))
                                  \<lparr>errors := errors (heap s (data report)) @ [error_msg report]\<rparr>) of
                          Returned \<Rightarrow> []
                        | Raised e \<Rightarrow> [Log_exception Failed]))"
    by (simp add: bridge_defs has_source_def split: option.splits outcome.splits)
  show ?thesis
    by (simp only: n i a b c started_returns succeeded_returns failed_returns deliver_returns
        simp_thms)
qed

theorem listener_exceptions_contained_witness:
  "fst (invoke (Started, download_started faulty) 0 (idle (Some faulty) False (pkg 1)))
     = Raised ''oops''
   \<and> NectarListener_download_started PrimarySource failure (idle (Some faulty) False (pkg 1))
     = (Returned, (idle (Some faulty) False (pkg 1))
          \<lparr>calls := [Listener_call Started 0 (pkg 1), Log_exception Started]\<rparr>)
   \<and> fst (NectarListener_download_succeeded PrimarySource failure
          (idle (Some faulty) False (pkg 1))) = Returned
   \<and> calls (snd (NectarListener_download_succeeded PrimarySource failure
          (idle (Some faulty) False (pkg 1))))
     = [Listener_call Succeeded 0 ((pkg 1)\<lparr>downloaded := True\<rparr>), Log_exception Succeeded]
   \<and> fst (NectarListener_download_failed PrimarySource failure
          (idle (Some faulty) False (pkg 2))) = Returned
   \<and> calls (snd (NectarListener_download_failed PrimarySource failure
          (idle (Some faulty) False (pkg 2))))
     = [Listener_call Failed 0 ((pkg 2)\<lparr>errors := [''404'']\<rparr>), Log_exception Failed]"
  using listener_exceptions_contained [where m = Started and cb = "download_started faulty"
      and r = 0 and s = "idle (Some faulty) False (pkg 1)" and d = PrimarySource
      and report = failure and es = "[]"]
    listener_exceptions_contained [where m = Started and cb = "download_started faulty"
      and r = 0 and s = "idle (Some faulty) False (pkg 2)" and d = PrimarySource
      and report = failure and es = "[]"]
  by (simp add: bridge_defs idle_def faulty_def failure_def pkg_def has_source_def)

text \<open>
  C10: in the handlers for success and failure the request is updated before the listener is
  looked at: the heap after the handler is the same whatever listener is registered (none, one
  that returns, one that raises); when cancellation is not active the update is applied; and a
  call that reaches the listener carries the request as updated.
\<close>

theorem request_mutation_precedes_listener:
  "heap (snd (NectarListener_download_succeeded d report
             (s\<lparr>warehouse := (warehouse s)\<lparr>listener := l\<rparr>\<rparr>)))
     = heap (snd (NectarListener_download_succeeded d report s))
   \<and> heap (snd (NectarListener_download_failed d report
             (s\<lparr>warehouse := (warehouse s)\<lparr>listener := l\<rparr>\<rparr>)))
     = heap (snd (NectarListener_download_failed d report s))
   \<and> (\<not> cancelled (warehouse s) \<longrightarrow>
        heap (snd (NectarListener_download_succeeded d report s)) (data report)
          = (heap s (data report))\<lparr>downloaded := True\<rparr>
        \<and> heap (snd (NectarListener_download_failed d report s)) (data report)
          = (heap s (data report))
              \<lparr>errors := errors (heap s (data report)) @ [error_msg report]\<rparr>)
   \<and> (Listener_call m r q \<in> set (new_calls s (snd (NectarListener_download_succeeded d report s)))
        \<longrightarrow> r = data report \<and> q = (heap s r)\<lparr>downloaded := True\<rparr>
            \<and> q = heap (snd (NectarListener_download_succeeded d report s)) r)
   \<and> (Listener_call m r q \<in> set (new_calls s (snd (NectarListener_download_failed d report s)))
        \<longrightarrow> r = data report \<and> q = (heap s r)\<lparr>errors := errors (heap s r) @ [error_msg report]\<rparr>
            \<and> q = heap (snd (NectarListener_download_failed d report s)) r)"
  by (auto simp add: bridge_defs new_calls_def split: option.splits outcome.splits)

theorem request_mutation_precedes_listener_witness:
  "\<not> cancelled (warehouse (idle None False (pkg 1)))
   \<and> downloaded (heap (snd (NectarListener_download_succeeded PrimarySource failure
         (idle None False (pkg 1)))) 0)
   \<and> errors (heap (snd (NectarListener_download_failed PrimarySource failure
         (idle None False (pkg 1)))) 0) = [''404'']
   \<and> errors (heap (snd (NectarListener_download_failed PrimarySource failure
         (idle (Some faulty) False (pkg 2)))) 0) = [''404'']
   \<and> Listener_call Failed 0 ((pkg 2)\<lparr>errors := [''404'']\<rparr>)
       \<in> set (new_calls (idle (Some faulty) False (pkg 2))
            (snd (NectarListener_download_failed PrimarySource failure
               (idle (Some faulty) False (pkg 2)))))"
  using request_mutation_precedes_listener [where d = PrimarySource and report = failure
      and s = "idle None False (pkg 1)" and l = "Some faulty" and m = Failed and r = 0
      and q = "(pkg 2)\<lparr>errors := [''404'']\<rparr>"]
    request_mutation_precedes_listener [where d = PrimarySource and report = failure
      and s = "idle (Some faulty) False (pkg 2)" and l = "Some faulty" and m = Failed and r = 0
      and q = "(pkg 2)\<lparr>errors := [''404'']\<rparr>"]
  by (simp add: bridge_defs new_calls_def idle_def faulty_def failure_def pkg_def has_source_def)

text \<open>
  C1 as stated fails when no listener is registered (the default of the constructor): the
  request has no candidate left, cancellation is not active, and nothing is called.
\<close>

theorem download_failed_unheard_counterexample:
  "\<not> cancelled (warehouse (idle None False (pkg 2)))
   \<and> \<not> has_source (heap (idle None False (pkg 2)) (data failure))
   \<and> calls (snd (NectarListener_download_failed PrimarySource failure (idle None False (pkg 2))))
       = []"
  by (simp add: bridge_defs idle_def failure_def pkg_def has_source_def)

text \<open>
  C1, amended: for every ``failed'' event delivered while cancellation is not active, the
  message is appended to the errors of the request of the report, and the listener's
  \<^verbatim>\<open>download_failed\<close> is called if and only if a listener is registered and the
  request has no candidate left; a failure on a request that still has a candidate makes no
  call at all.
\<close>

theorem download_failed_event:
  assumes "\<not> cancelled (warehouse s)"
  shows "fst (NectarListener_download_failed d report s) = Returned
   \<and> warehouse (snd (NectarListener_download_failed d report s)) = warehouse s
   \<and> heap (snd (NectarListener_download_failed d report s))
       = (heap s)(data report := (heap s (data report))
            \<lparr>errors := errors (heap s (data report)) @ [error_msg report]\<rparr>)
   \<and> ((\<exists>q. Listener_call Failed (data report) q
              \<in> set (new_calls s (snd (NectarListener_download_failed d report s))))
        \<longleftrightarrow> listener (warehouse s) \<noteq> None \<and> \<not> has_source (heap s (data report)))
   \<and> (has_source (heap s (data report))
        \<longrightarrow> new_calls s (snd (NectarListener_download_failed d report s)) = [])"
  using assms
  by (auto simp add: bridge_defs new_calls_def has_source_def split: option.splits outcome.splits)

theorem download_failed_event_witness:
  "\<not> cancelled (warehouse (idle (Some quiet) False (pkg 1)))
   \<and> has_source (heap (idle (Some quiet) False (pkg 1)) (data failure))
   \<and> errors (heap (snd (NectarListener_download_failed PrimarySource failure
         (idle (Some quiet) False (pkg 1)))) 0) = [''404'']
   \<and> new_calls (idle (Some quiet) False (pkg 1))
        (snd (NectarListener_download_failed PrimarySource failure
           (idle (Some quiet) False (pkg 1)))) = []
   \<and> \<not> cancelled (warehouse (idle (Some quiet) False (pkg 2)))
   \<and> \<not> has_source (heap (idle (Some quiet) False (pkg 2)) (data failure))
   \<and> new_calls (idle (Some quiet) False (pkg 2))
        (snd (NectarListener_download_failed PrimarySource failure
           (idle (Some quiet) False (pkg 2))))
       = [Listener_call Failed 0 ((pkg 2)\<lparr>errors := [''404'']\<rparr>)]"
  using download_failed_event [of "idle (Some quiet) False (pkg 1)" PrimarySource failure]
    download_failed_event [of "idle (Some quiet) False (pkg 2)" PrimarySource failure]
  by (simp add: bridge_defs new_calls_def idle_def quiet_def failure_def pkg_def has_source_def)

section \<open>Properties of the collation\<close>

lemma collated_loop_append:
  "collated_loop (xs @ ys) c h
     = collated_loop ys (fst (collated_loop xs c h)) (snd (collated_loop xs c h))"
  by (induction xs arbitrary: c h) (auto split: prod.splits option.splits)

lemma collated_loop_heap:
  "snd (collated_loop xs c h) = snd (collated_loop xs [] h)"
proof (induction xs arbitrary: c h)
  case Nil
  show ?case by simp
next
  case (Cons request rest)
  obtain v r' where ns: "next_source (h request) = (v, r')" by (cases "next_source (h request)")
  show ?case
  proof (cases "downloaded (h request)")
    case True
    then show ?thesis using Cons.IH [of c h] by simp
  next
    case False
    show ?thesis
    proof (cases v)
      case None
      have "snd (collated_loop rest c (h(request := r')))
            = snd (collated_loop rest [] (h(request := r')))"
        by (rule Cons.IH)
      then show ?thesis using False ns None by simp
    next
      case (Some source)
      let ?j = "DownloadRequest (snd source) (destination r') request"
      have "snd (collated_loop rest (setdefault_append (fst source) ?j c) (h(request := r')))
            = snd (collated_loop rest [] (h(request := r')))"
        by (rule Cons.IH)
      moreover have "snd (collated_loop rest (setdefault_append (fst source) ?j []) (h(request := r')))
            = snd (collated_loop rest [] (h(request := r')))"
        by (rule Cons.IH)
      ultimately show ?thesis using False ns Some by simp
    qed
  qed
qed

lemma jobs_for_setdefault_append:
  "jobs_for (setdefault_append k j c) key = jobs_for c key @ (if k = key then [j] else [])"
  by (induction c) (auto simp add: jobs_for_def)

lemma jobs_for_Nil [simp]: "jobs_for [] key = []"
  by (simp add: jobs_for_def)

lemma jobs_for_single [simp]: "jobs_for [(k, js)] key = (if k = key then js else [])"
  by (simp add: jobs_for_def)

lemma collated_loop_jobs:
  "jobs_for (fst (collated_loop xs c h)) key
     = jobs_for c key @ jobs_for (fst (collated_loop xs [] h)) key"
proof (induction xs arbitrary: c h)
  case Nil
  show ?case by simp
next
  case (Cons request rest)
  obtain v r' where ns: "next_source (h request) = (v, r')" by (cases "next_source (h request)")
  show ?case
  proof (cases "downloaded (h request)")
    case True
    then show ?thesis using Cons.IH [of c h] by simp
  next
    case False
    show ?thesis
    proof (cases v)
      case None
      have "jobs_for (fst (collated_loop rest c (h(request := r')))) key
            = jobs_for c key @ jobs_for (fst (collated_loop rest [] (h(request := r')))) key"
        by (rule Cons.IH)
      then show ?thesis using False ns None by simp
    next
      case (Some source)
      let ?j = "DownloadRequest (snd source) (destination r') request"
      let ?h = "h(request := r')"
      have a: "jobs_for (fst (collated_loop rest (setdefault_append (fst source) ?j c) ?h)) key
            = jobs_for (setdefault_append (fst source) ?j c) key
              @ jobs_for (fst (collated_loop rest [] ?h)) key"
        by (rule Cons.IH)
      have b: "jobs_for (fst (collated_loop rest (setdefault_append (fst source) ?j []) ?h)) key
            = jobs_for (setdefault_append (fst source) ?j []) key
              @ jobs_for (fst (collated_loop rest [] ?h)) key"
        by (rule Cons.IH)
      show ?thesis using False ns Some a b by (simp add: jobs_for_setdefault_append)
    qed
  qed
qed

lemma setdefault_append_keys:
  "set (map fst (setdefault_append k j c)) = insert k (set (map fst c))"
proof (induction c)
  case Nil
  show ?case by simp
next
  case (Cons item c)
  obtain a b where item: "item = (a, b)" by (cases item)
  show ?case
  proof (cases "a = k")
    case True
    then show ?thesis using item by auto
  next
    case False
    then show ?thesis using item Cons.IH by auto
  qed
qed

lemma setdefault_append_distinct:
  "distinct (map fst c) \<Longrightarrow> distinct (map fst (setdefault_append k j c))"
proof (induction c)
  case Nil
  show ?case by simp
next
  case (Cons item c)
  obtain a b where item: "item = (a, b)" by (cases item)
  have d: "distinct (map fst c)" and a: "a \<notin> set (map fst c)"
    using Cons.prems item by simp_all
  show ?case
  proof (cases "a = k")
    case True
    then show ?thesis using item d a by simp
  next
    case False
    have "a \<notin> set (map fst (setdefault_append k j c))"
      using False a by (simp only: setdefault_append_keys) simp
    then show ?thesis using False item Cons.IH [OF d] by simp
  qed
qed

lemma setdefault_append_nonempty:
  "[] \<notin> set (map snd c) \<Longrightarrow> [] \<notin> set (map snd (setdefault_append k j c))"
proof (induction c)
  case Nil
  show ?case by simp
next
  case (Cons item c)
  obtain a b where item: "item = (a, b)" by (cases item)
  have b: "b \<noteq> []" and c: "[] \<notin> set (map snd c)"
    using Cons.prems item by auto
  show ?case
  proof (cases "a = k")
    case True
    then show ?thesis using item b c by simp
  next
    case False
    then show ?thesis using item b Cons.IH [OF c] by simp
  qed
qed

lemma collated_loop_wf:
  "distinct (map fst c) \<Longrightarrow> [] \<notin> set (map snd c) \<Longrightarrow>
     distinct (map fst (fst (collated_loop xs c h)))
     \<and> [] \<notin> set (map snd (fst (collated_loop xs c h)))"
proof (induction xs arbitrary: c h)
  case Nil
  then show ?case by simp
next
  case (Cons request rest)
  obtain v r' where ns: "next_source (h request) = (v, r')" by (cases "next_source (h request)")
  show ?case
  proof (cases "downloaded (h request)")
    case True
    have "distinct (map fst (fst (collated_loop rest c h)))
         \<and> [] \<notin> set (map snd (fst (collated_loop rest c h)))"
      using Cons.prems by (rule Cons.IH)
    then show ?thesis using True by simp
  next
    case False
    show ?thesis
    proof (cases v)
      case None
      have "distinct (map fst (fst (collated_loop rest c (h(request := r')))))
         \<and> [] \<notin> set (map snd (fst (collated_loop rest c (h(request := r')))))"
        using Cons.prems by (rule Cons.IH)
      then show ?thesis using False ns None by simp
    next
      case (Some source)
      let ?c = "setdefault_append (fst source) (DownloadRequest (snd source) (destination r') request) c"
      have "distinct (map fst ?c)" using Cons.prems(1) by (rule setdefault_append_distinct)
      moreover have "[] \<notin> set (map snd ?c)"
        using Cons.prems(2) by (rule setdefault_append_nonempty)
      ultimately have "distinct (map fst (fst (collated_loop rest ?c (h(request := r')))))
         \<and> [] \<notin> set (map snd (fst (collated_loop rest ?c (h(request := r')))))"
        by (rule Cons.IH)
      then show ?thesis using False ns Some by simp
    qed
  qed
qed

lemma next_source_None: "fst (next_source q) = None \<Longrightarrow> snd (next_source q) = q"
  by (auto simp add: next_source_def split: if_splits)

lemma collated_snoc:
  "collated (pre @ [request]) h = collated_loop [request] (fst (collated pre h)) (snd (collated pre h))"
  by (simp add: collated_def collated_loop_append)

lemma destination_next_source [simp]: "destination (snd (next_source q)) = destination q"
  by (simp add: next_source_def)

lemma collated_loop_distinct:
  "distinct rl \<Longrightarrow>
     jobs_for (fst (collated_loop rl [] h)) key = concat (map (\<lambda>r. contribution (h r) r key) rl)
     \<and> snd (collated_loop rl [] h)
         = (\<lambda>r. if r \<in> set rl \<and> \<not> downloaded (h r) then snd (next_source (h r)) else h r)"
proof (induction rl arbitrary: h)
  case Nil
  show ?case by simp
next
  case (Cons request rest)
  have d: "distinct rest" and fresh: "request \<notin> set rest" using Cons.prems by simp_all
  obtain v r' where ns: "next_source (h request) = (v, r')" by (cases "next_source (h request)")
  show ?case
  proof (cases "downloaded (h request)")
    case True
    have "jobs_for (fst (collated_loop rest [] h)) key
            = concat (map (\<lambda>r. contribution (h r) r key) rest)
     \<and> snd (collated_loop rest [] h)
         = (\<lambda>r. if r \<in> set rest \<and> \<not> downloaded (h r) then snd (next_source (h r)) else h r)"
      using d by (rule Cons.IH)
    then show ?thesis using True by (auto simp add: contribution_def)
  next
    case False
    let ?h = "h(request := r')"
    have IH: "jobs_for (fst (collated_loop rest [] ?h)) key
            = concat (map (\<lambda>r. contribution (?h r) r key) rest)
     \<and> snd (collated_loop rest [] ?h)
         = (\<lambda>r. if r \<in> set rest \<and> \<not> downloaded (?h r) then snd (next_source (?h r)) else ?h r)"
      using d by (rule Cons.IH)
    have same: "map (\<lambda>r. contribution (?h r) r key) rest = map (\<lambda>r. contribution (h r) r key) rest"
      using fresh by (intro map_cong) auto
    have heap': "(\<lambda>r. if r \<in> set rest \<and> \<not> downloaded (?h r) then snd (next_source (?h r)) else ?h r)
        = (\<lambda>r. if r \<in> set (request # rest) \<and> \<not> downloaded (h r)
                then snd (next_source (h r)) else h r)"
      using fresh False ns by (auto simp add: fun_eq_iff)
    have J: "jobs_for (fst (collated_loop rest [] ?h)) key
            = concat (map (\<lambda>r. contribution (h r) r key) rest)"
      using IH by (simp only: same)
    have H: "snd (collated_loop rest [] ?h)
        = (\<lambda>r. if r \<in> set (request # rest) \<and> \<not> downloaded (h r)
                then snd (next_source (h r)) else h r)"
      using IH by (simp only: heap')
    show ?thesis
    proof (cases v)
      case None
      have c: "contribution (h request) request key = []"
        using False ns None by (simp add: contribution_def)
      have step: "collated_loop (request # rest) [] h = collated_loop rest [] ?h"
        using False ns None by simp
      show ?thesis
      proof (intro conjI)
        show "jobs_for (fst (collated_loop (request # rest) [] h)) key
            = concat (map (\<lambda>r. contribution (h r) r key) (request # rest))"
          by (simp only: step J c list.map concat.simps append_Nil)
        show "snd (collated_loop (request # rest) [] h)
            = (\<lambda>r. if r \<in> set (request # rest) \<and> \<not> downloaded (h r)
                    then snd (next_source (h r)) else h r)"
          by (simp only: step H)
      qed
    next
      case (Some candidate)
      let ?j = "DownloadRequest (snd candidate) (destination r') request"
      have c: "contribution (h request) request key = (if fst candidate = key then [?j] else [])"
        using False ns Some destination_next_source [of "h request"]
        by (simp add: contribution_def)
      have step: "collated_loop (request # rest) [] h
            = collated_loop rest [(fst candidate, [?j])] ?h"
        using False ns Some by simp
      have j: "jobs_for (fst (collated_loop rest [(fst candidate, [?j])] ?h)) key
            = jobs_for [(fst candidate, [?j])] key @ jobs_for (fst (collated_loop rest [] ?h)) key"
        by (rule collated_loop_jobs)
      have h: "snd (collated_loop rest [(fst candidate, [?j])] ?h)
            = snd (collated_loop rest [] ?h)"
        by (rule collated_loop_heap)
      show ?thesis
      proof (intro conjI)
        show "jobs_for (fst (collated_loop (request # rest) [] h)) key
            = concat (map (\<lambda>r. contribution (h r) r key) (request # rest))"
          by (simp only: step j J c jobs_for_single list.map concat.simps)
        show "snd (collated_loop (request # rest) [] h)
            = (\<lambda>r. if r \<in> set (request # rest) \<and> \<not> downloaded (h r)
                    then snd (next_source (h r)) else h r)"
          by (simp only: step h H)
      qed
    qed
  qed
qed

text \<open>
  C2: \<^verbatim>\<open>collated(request_list)\<close> handles the entries of the list one after the
  other. For an entry \<open>request\<close> reached with the dictionary \<open>c1\<close> and the heap
  \<open>h1\<close>, and left with \<open>c2\<close> and \<open>h2\<close>: a request that is downloaded is skipped,
  nothing changes and no candidate is consumed; a request whose \<^verbatim>\<open>next_source()\<close>
  returns \<^verbatim>\<open>None\<close> is skipped; any other request adds exactly one job, at the end
  of the list of the source of its next candidate and nowhere else, made of the candidate's
  address, the request's destination and the reference to the request, and the request's cursor
  has moved past that candidate. What the entry adds stays in the result: the jobs of the later
  entries come behind it. The result is a dictionary: no source occurs twice and no list
  of jobs is empty. When no request object occurs twice in the list, the jobs of a source are
  those of the requests of the list, in its order, that are not downloaded and whose next
  candidate is of that source, and exactly these requests have moved to their next candidate.
\<close>

theorem collated_entry:
  assumes "collated pre h = (c1, h1)" and "collated (pre @ [request]) h = (c2, h2)"
  shows "(downloaded (h1 request) \<longrightarrow> c2 = c1 \<and> h2 = h1)
    \<and> (\<not> downloaded (h1 request) \<and> fst (next_source (h1 request)) = None
         \<longrightarrow> c2 = c1 \<and> h2 = h1)
    \<and> (\<not> downloaded (h1 request) \<and> next_source (h1 request) = (Some (src, address), q)
         \<longrightarrow> jobs_for c2 src
               = jobs_for c1 src @ [DownloadRequest address (destination (h1 request)) request]
             \<and> (\<forall>key. key \<noteq> src \<longrightarrow> jobs_for c2 key = jobs_for c1 key)
             \<and> h2 = h1(request := q)
             \<and> (src, address) = candidates (h1 request) ! cursor (h1 request))
    \<and> jobs_for (fst (collated (pre @ request # post) h)) key
         = jobs_for c2 key @ jobs_for (fst (collated post h2)) key
    \<and> snd (collated (pre @ request # post) h) = snd (collated post h2)
    \<and> distinct (map fst (fst (collated (pre @ request # post) h)))
    \<and> [] \<notin> set (map snd (fst (collated (pre @ request # post) h)))
    \<and> (distinct (pre @ request # post) \<longrightarrow>
          jobs_for (fst (collated (pre @ request # post) h)) key
            = concat (map (\<lambda>r. contribution (h r) r key) (pre @ request # post))
          \<and> snd (collated (pre @ request # post) h)
            = (\<lambda>r. if r \<in> set (pre @ request # post) \<and> \<not> downloaded (h r)
                    then snd (next_source (h r)) else h r))"
proof -
  have step: "collated_loop [request] c1 h1 = (c2, h2)"
    using assms collated_snoc [of pre request h] by simp
  have a: "downloaded (h1 request) \<longrightarrow> c2 = c1 \<and> h2 = h1"
    using step by auto
  have b: "\<not> downloaded (h1 request) \<and> fst (next_source (h1 request)) = None
         \<longrightarrow> c2 = c1 \<and> h2 = h1"
    using step next_source_None [of "h1 request"]
    by (cases "next_source (h1 request)") auto
  have c: "\<not> downloaded (h1 request) \<and> next_source (h1 request) = (Some (src, address), q)
         \<longrightarrow> jobs_for c2 src
               = jobs_for c1 src @ [DownloadRequest address (destination (h1 request)) request]
             \<and> (\<forall>key. key \<noteq> src \<longrightarrow> jobs_for c2 key = jobs_for c1 key)
             \<and> h2 = h1(request := q)
             \<and> (src, address) = candidates (h1 request) ! cursor (h1 request)"
    using step by (auto simp add: jobs_for_setdefault_append next_source_def split: if_splits)
  have whole: "collated (pre @ request # post) h = collated_loop post c2 h2"
    using assms(2) collated_loop_append [of "pre @ [request]" post "[]" h]
    by (simp add: collated_def)
  have d: "jobs_for (fst (collated (pre @ request # post) h)) key
         = jobs_for c2 key @ jobs_for (fst (collated post h2)) key"
    using whole collated_loop_jobs [of post c2 h2 key] by (simp add: collated_def)
  have e: "snd (collated (pre @ request # post) h) = snd (collated post h2)"
    using whole collated_loop_heap [of post c2 h2] by (simp add: collated_def)
  have f: "distinct (map fst (fst (collated (pre @ request # post) h)))
    \<and> [] \<notin> set (map snd (fst (collated (pre @ request # post) h)))"
    unfolding collated_def by (rule collated_loop_wf) simp_all
  have g: "distinct (pre @ request # post) \<longrightarrow>
          jobs_for (fst (collated (pre @ request # post) h)) key
            = concat (map (\<lambda>r. contribution (h r) r key) (pre @ request # post))
          \<and> snd (collated (pre @ request # post) h)
            = (\<lambda>r. if r \<in> set (pre @ request # post) \<and> \<not> downloaded (h r)
                    then snd (next_source (h r)) else h r)"
    unfolding collated_def by (rule impI) (rule collated_loop_distinct)
  show ?thesis using a b c d e f g by blast
qed

theorem collated_entry_witness:
  "downloaded (snd (collated [] shelf) 0)
   \<and> collated [0] shelf = collated [] shelf
   \<and> \<not> downloaded (snd (collated [0] shelf) 1)
   \<and> fst (next_source (snd (collated [0] shelf) 1)) = None
   \<and> fst (collated [0, 1] shelf) = fst (collated [0] shelf)
   \<and> \<not> downloaded (snd (collated [0, 1] shelf) 2)
   \<and> next_source (snd (collated [0, 1] shelf) 2)
       = (Some (ContentSource ''a'', ''http://a/pkg-1''), pkg 1)
   \<and> fst (collated [0, 1, 2] shelf)
       = [(ContentSource ''a'', [DownloadRequest ''http://a/pkg-1'' ''/var/lib/pkg-1'' 2])]
   \<and> snd (collated [0, 1, 2] shelf) 2 = pkg 1"
  using collated_entry [where pre = "[]" and request = 0 and post = "[1, 2]" and h = shelf
      and ?c1.0 = "fst (collated [] shelf)" and ?h1.0 = "snd (collated [] shelf)"
      and ?c2.0 = "fst (collated [0] shelf)" and ?h2.0 = "snd (collated [0] shelf)"]
    collated_entry [where pre = "[0]" and request = 1 and post = "[2]" and h = shelf
      and ?c1.0 = "fst (collated [0] shelf)" and ?h1.0 = "snd (collated [0] shelf)"
      and ?c2.0 = "fst (collated [0, 1] shelf)" and ?h2.0 = "snd (collated [0, 1] shelf)"]
    collated_entry [where pre = "[0, 1]" and request = 2 and post = "[]" and h = shelf
      and ?c1.0 = "fst (collated [0, 1] shelf)" and ?h1.0 = "snd (collated [0, 1] shelf)"
      and ?c2.0 = "fst (collated [0, 1, 2] shelf)" and ?h2.0 = "snd (collated [0, 1, 2] shelf)"
      and src = "ContentSource ''a''" and address = "''http://a/pkg-1''" and q = "pkg 1"
      and key = "ContentSource ''a''"]
  by (simp add: collated_def shelf_def pkg_def next_source_def)

section \<open>Properties of the refresh pass\<close>

lemma refresh_loop_complete:
  assumes "\<not> cancelled (warehouse s)" and "\<forall>j<length xs. \<not> cancel_arrives env (i + j)"
  shows "refresh_loop env force i xs reports s
     = (Some (reports @ concat (map (reports_of env force) xs)),
        called Purge_expired (interrupt env (i + length xs)
          (s\<lparr>calls := calls s @ concat (map (calls_of env force) xs)\<rparr>)))"
  using assms
proof (induction xs arbitrary: i reports s)
  case Nil
  then show ?case by simp
next
  case (Cons item rest)
  obtain source_id source where item: "item = (source_id, source)" by (cases item)
  have now: "interrupt env i s = s"
    using Cons.prems(2) by (auto simp add: interrupt_def)
  have later: "\<forall>j<length rest. \<not> cancel_arrives env (Suc i + j)"
    using Cons.prems(2) by auto
  have nc: "\<And>es. \<not> cancelled (warehouse (s\<lparr>calls := calls s @ es\<rparr>))"
    using Cons.prems(1) by simp
  show ?case
  proof (cases "force \<or> \<not> has_entries env source_id")
    case False
    have "refresh_loop env force (Suc i) rest reports s
       = (Some (reports @ concat (map (reports_of env force) rest)),
          called Purge_expired (interrupt env (Suc i + length rest)
            (s\<lparr>calls := calls s @ concat (map (calls_of env force) rest)\<rparr>)))"
      using Cons.prems(1) later by (rule Cons.IH)
    moreover have "reports_of env force (source_id, source) = []"
      and "calls_of env force (source_id, source) = []"
      using False by (simp_all add: reports_of_def calls_of_def)
    ultimately show ?thesis
      using False item now Cons.prems(1) by simp
  next
    case True
    show ?thesis
    proof (cases "source_refresh env source")
      case (Inr report)
      let ?s = "called (Source_refresh source_id) s"
      have "\<not> cancelled (warehouse ?s)" using Cons.prems(1) by (simp add: called_def)
      then have "refresh_loop env force (Suc i) rest (reports @ report) ?s
       = (Some ((reports @ report) @ concat (map (reports_of env force) rest)),
          called Purge_expired (interrupt env (Suc i + length rest)
            (?s\<lparr>calls := calls ?s @ concat (map (calls_of env force) rest)\<rparr>)))"
        using later by (rule Cons.IH)
      moreover have "reports_of env force (source_id, source) = report"
        and "calls_of env force (source_id, source) = [Source_refresh source_id]"
        using True Inr by (simp_all add: reports_of_def calls_of_def)
      ultimately show ?thesis
        using True Inr item now Cons.prems(1) by (simp add: called_def)
    next
      case (Inl e)
      let ?s = "called (Log_error source_id e) (called (Source_refresh source_id) s)"
      have "\<not> cancelled (warehouse ?s)" using Cons.prems(1) by (simp add: called_def)
      then have "refresh_loop env force (Suc i) rest (reports @ [RefreshReport source_id '''' [e]]) ?s
       = (Some ((reports @ [RefreshReport source_id '''' [e]])
                 @ concat (map (reports_of env force) rest)),
          called Purge_expired (interrupt env (Suc i + length rest)
            (?s\<lparr>calls := calls ?s @ concat (map (calls_of env force) rest)\<rparr>)))"
        using later by (rule Cons.IH)
      moreover have "reports_of env force (source_id, source) = [RefreshReport source_id '''' [e]]"
        and "calls_of env force (source_id, source)
               = [Source_refresh source_id, Log_error source_id e]"
        using True Inl by (simp_all add: reports_of_def calls_of_def)
      ultimately show ?thesis
        using True Inl item now Cons.prems(1) by (simp add: called_def)
    qed
  qed
qed

lemma refresh_loop_cancelled:
  assumes "\<not> cancelled (warehouse s)" and "k < length xs" and "cancel_arrives env (i + k)"
    and "\<forall>j<k. \<not> cancel_arrives env (i + j)"
  shows "refresh_loop env force i xs reports s
     = (None, cancel (s\<lparr>calls := calls s @ concat (map (calls_of env force) (take k xs))\<rparr>))"
  using assms
proof (induction xs arbitrary: i k reports s)
  case Nil
  then show ?case by simp
next
  case (Cons item rest)
  obtain source_id source where item: "item = (source_id, source)" by (cases item)
  show ?case
  proof (cases k)
    case 0
    then have "interrupt env i s = cancel s"
      using Cons.prems(3) by (simp add: interrupt_def)
    then show ?thesis using 0 item by (simp add: cancel_def)
  next
    case (Suc k')
    have now: "interrupt env i s = s"
      using Cons.prems(4) Suc by (auto simp add: interrupt_def)
    have k': "k' < length rest" using Cons.prems(2) Suc by simp
    have at: "cancel_arrives env (Suc i + k')" using Cons.prems(3) Suc by simp
    have before: "\<forall>j<k'. \<not> cancel_arrives env (Suc i + j)"
    proof (intro allI impI)
      fix j assume "j < k'"
      then have "Suc j < k" using Suc by simp
      then have "\<not> cancel_arrives env (i + Suc j)" using Cons.prems(4) by blast
      then show "\<not> cancel_arrives env (Suc i + j)" by simp
    qed
    show ?thesis
    proof (cases "force \<or> \<not> has_entries env source_id")
      case False
      have "refresh_loop env force (Suc i) rest reports s
         = (None, cancel (s\<lparr>calls := calls s @ concat (map (calls_of env force) (take k' rest))\<rparr>))"
        using Cons.prems(1) k' at before by (rule Cons.IH)
      moreover have "calls_of env force (source_id, source) = []"
        using False by (simp add: calls_of_def)
      ultimately show ?thesis
        using False item now Suc Cons.prems(1) by simp
    next
      case True
      show ?thesis
      proof (cases "source_refresh env source")
        case (Inr report)
        let ?s = "called (Source_refresh source_id) s"
        have "\<not> cancelled (warehouse ?s)" using Cons.prems(1) by (simp add: called_def)
        then have "refresh_loop env force (Suc i) rest (reports @ report) ?s
           = (None, cancel (?s\<lparr>calls := calls ?s
                 @ concat (map (calls_of env force) (take k' rest))\<rparr>))"
          using k' at before by (rule Cons.IH)
        moreover have "calls_of env force (source_id, source) = [Source_refresh source_id]"
          using True Inr by (simp add: calls_of_def)
        ultimately show ?thesis
          using True Inr item now Suc Cons.prems(1) by (simp add: called_def)
      next
        case (Inl e)
        let ?s = "called (Log_error source_id e) (called (Source_refresh source_id) s)"
        have "\<not> cancelled (warehouse ?s)" using Cons.prems(1) by (simp add: called_def)
        then have "refresh_loop env force (Suc i) rest
              (reports @ [RefreshReport source_id '''' [e]]) ?s
           = (None, cancel (?s\<lparr>calls := calls ?s
                 @ concat (map (calls_of env force) (take k' rest))\<rparr>))"
          using k' at before by (rule Cons.IH)
        moreover have "calls_of env force (source_id, source)
               = [Source_refresh source_id, Log_error source_id e]"
          using True Inl by (simp add: calls_of_def)
        ultimately show ?thesis
          using True Inl item now Suc Cons.prems(1) by (simp add: called_def)
      qed
    qed
  qed
qed

lemma refresh_complete:
  assumes "\<forall>j<length (sources (warehouse s)). \<not> cancel_arrives env j"
  shows "fst (refresh env force s)
           = Some (concat (map (reports_of env force) (sources (warehouse s))))
    \<and> new_calls s (snd (refresh env force s))
           = concat (map (calls_of env force) (sources (warehouse s))) @ [Purge_expired]"
proof -
  have "\<not> cancelled (warehouse (reset s))" by (simp add: reset_def)
  moreover have "\<forall>j<length (sources (warehouse (reset s))). \<not> cancel_arrives env (0 + j)"
    using assms by (simp add: reset_def)
  ultimately have "refresh_loop env force 0 (sources (warehouse (reset s))) [] (reset s)
     = (Some ([] @ concat (map (reports_of env force) (sources (warehouse (reset s))))),
        called Purge_expired (interrupt env (0 + length (sources (warehouse (reset s))))
          ((reset s)\<lparr>calls := calls (reset s)
             @ concat (map (calls_of env force) (sources (warehouse (reset s))))\<rparr>)))"
    by (rule refresh_loop_complete)
  then show ?thesis
    by (simp add: refresh_def new_calls_def reset_def called_def interrupt_def cancel_def)
qed

lemma refresh_cancelled:
  assumes "\<exists>j<length (sources (warehouse s)). cancel_arrives env j"
  shows "fst (refresh env force s) = None
    \<and> (\<exists>k<length (sources (warehouse s)).
          new_calls s (snd (refresh env force s))
            = concat (map (calls_of env force) (take k (sources (warehouse s)))))"
proof -
  define k where "k = (LEAST j. j < length (sources (warehouse s)) \<and> cancel_arrives env j)"
  have k: "k < length (sources (warehouse s)) \<and> cancel_arrives env k"
    unfolding k_def using assms by (rule LeastI_ex)
  have first: "\<forall>j<k. \<not> cancel_arrives env (0 + j)"
  proof (intro allI impI)
    fix j assume j: "j < k"
    then have "\<not> (j < length (sources (warehouse s)) \<and> cancel_arrives env j)"
      unfolding k_def by (rule not_less_Least)
    then show "\<not> cancel_arrives env (0 + j)" using j k by simp
  qed
  have "\<not> cancelled (warehouse (reset s))" by (simp add: reset_def)
  moreover have "k < length (sources (warehouse (reset s)))" using k by (simp add: reset_def)
  moreover have "cancel_arrives env (0 + k)" using k by simp
  ultimately have "refresh_loop env force 0 (sources (warehouse (reset s))) [] (reset s)
     = (None, cancel ((reset s)\<lparr>calls := calls (reset s)
           @ concat (map (calls_of env force) (take k (sources (warehouse (reset s)))))\<rparr>))"
    using first by (rule refresh_loop_cancelled)
  then have "fst (refresh env force s) = None
    \<and> new_calls s (snd (refresh env force s))
            = concat (map (calls_of env force) (take k (sources (warehouse s))))"
    by (simp add: refresh_def new_calls_def reset_def cancel_def)
  then show ?thesis using k by blast
qed

lemma calls_of_no_purge: "Purge_expired \<notin> set (concat (map (calls_of env force) xs))"
  by (auto simp add: calls_of_def split: if_splits sum.splits)

lemmas scenario_defs = depot_def mirrors_def calm_def hasty_def stormy_def pkg_def

lemmas refresh_unfold = refresh_def reset_def interrupt_def cancel_def called_def new_calls_def

text \<open>
  C5: when the flag is set while \<^verbatim>\<open>refresh\<close> goes through the sources, the pass
  stops at the next source; but the bare \<^verbatim>\<open>return\<close> hands back
  \<^verbatim>\<open>None\<close>, not the reports collected so far. Here the first source has been
  refreshed and has reported.
\<close>

theorem refresh_answers_cancel_with_none:
  "source_refresh hasty (ContentSource ''a'') = Inr [RefreshReport ''a'' ''http://a/'' []]
   \<and> new_calls depot (snd (refresh hasty False depot)) = [Source_refresh ''a'']
   \<and> cancelled (warehouse (snd (refresh hasty False depot)))
   \<and> fst (refresh hasty False depot) = None"
  by (simp add: scenario_defs refresh_unfold)

text \<open>
  C6 as stated fails: a pass that is cancelled between two sources returns without a call of
  \<^verbatim>\<open>purge_expired()\<close>.
\<close>

theorem refresh_cancelled_skips_purge_counterexample:
  "cancel_arrives hasty 1
   \<and> fst (refresh hasty True depot) = None
   \<and> Purge_expired \<notin> set (calls (snd (refresh hasty True depot)))"
  by (simp add: scenario_defs refresh_unfold)

text \<open>
  C6, amended: for any value of \<^verbatim>\<open>force\<close> and whatever sources are skipped or fail,
  a pass during which no cancellation is seen at a source calls
  \<^verbatim>\<open>purge_expired()\<close> exactly once, as its last call, and returns a list; a pass
  that sees the flag set at a source returns \<^verbatim>\<open>None\<close> and has not purged.
\<close>

theorem refresh_purges_unless_cancelled:
  "((\<forall>j<length (sources (warehouse s)). \<not> cancel_arrives env j) \<longrightarrow>
       fst (refresh env force s) \<noteq> None
       \<and> (\<exists>before. new_calls s (snd (refresh env force s)) = before @ [Purge_expired]
             \<and> Purge_expired \<notin> set before))
   \<and> ((\<exists>j<length (sources (warehouse s)). cancel_arrives env j) \<longrightarrow>
       fst (refresh env force s) = None
       \<and> Purge_expired \<notin> set (new_calls s (snd (refresh env force s))))"
proof (intro conjI impI)
  assume a: "\<forall>j<length (sources (warehouse s)). \<not> cancel_arrives env j"
  show "fst (refresh env force s) \<noteq> None"
    using refresh_complete [OF a, of force] by simp
  show "\<exists>before. new_calls s (snd (refresh env force s)) = before @ [Purge_expired]
             \<and> Purge_expired \<notin> set before"
    using refresh_complete [OF a, of force] calls_of_no_purge [of env force "sources (warehouse s)"]
    by blast
next
  assume a: "\<exists>j<length (sources (warehouse s)). cancel_arrives env j"
  show "fst (refresh env force s) = None"
    using refresh_cancelled [OF a, of force] by simp
  obtain k where "new_calls s (snd (refresh env force s))
            = concat (map (calls_of env force) (take k (sources (warehouse s))))"
    using refresh_cancelled [OF a, of force] by blast
  then show "Purge_expired \<notin> set (new_calls s (snd (refresh env force s)))"
    using calls_of_no_purge [of env force "take k (sources (warehouse s))"] by simp
qed

theorem refresh_purges_unless_cancelled_witness:
  "new_calls depot (snd (refresh calm False depot))
     = [Source_refresh ''a'', Source_refresh ''b'', Log_error ''b'' ''timed out'', Purge_expired]
   \<and> fst (refresh calm False depot)
     = Some [RefreshReport ''a'' ''http://a/'' [], RefreshReport ''b'' '''' [''timed out'']]
   \<and> cancel_arrives hasty 1
   \<and> fst (refresh hasty False depot) = None
   \<and> new_calls depot (snd (refresh hasty False depot)) = [Source_refresh ''a'']"
  using refresh_purges_unless_cancelled [of depot calm False]
    refresh_purges_unless_cancelled [of depot hasty False]
  by (simp add: scenario_defs refresh_unfold)

lemma calls_interrupt [simp]: "calls (interrupt env i s) = calls s"
  by (simp add: interrupt_def cancel_def)

lemma refresh_loop_extends:
  "(\<exists>after. calls (snd (refresh_loop env force i xs reports s)) = calls s @ after)
   \<and> (\<forall>rs. fst (refresh_loop env force i xs reports s) = Some rs
          \<longrightarrow> (\<exists>more. rs = reports @ more))"
proof (induction xs arbitrary: i reports s)
  case Nil
  show ?case by (simp add: called_def)
next
  case (Cons item rest)
  obtain source_id source where item: "item = (source_id, source)" by (cases item)
  let ?s0 = "interrupt env i s"
  show ?case
  proof (cases "cancelled (warehouse ?s0)")
    case True
    then show ?thesis using item by simp
  next
    case nc: False
    show ?thesis
    proof (cases "force \<or> \<not> has_entries env source_id")
      case False
      have "(\<exists>after. calls (snd (refresh_loop env force (Suc i) rest reports ?s0))
                  = calls ?s0 @ after)
         \<and> (\<forall>rs. fst (refresh_loop env force (Suc i) rest reports ?s0) = Some rs
                \<longrightarrow> (\<exists>more. rs = reports @ more))"
        by (rule Cons.IH)
      then show ?thesis using False nc item by simp
    next
      case True
      show ?thesis
      proof (cases "source_refresh env source")
        case (Inr report)
        let ?s1 = "called (Source_refresh source_id) ?s0"
        have "(\<exists>after. calls (snd (refresh_loop env force (Suc i) rest (reports @ report) ?s1))
                  = calls ?s1 @ after)
         \<and> (\<forall>rs. fst (refresh_loop env force (Suc i) rest (reports @ report) ?s1) = Some rs
                \<longrightarrow> (\<exists>more. rs = (reports @ report) @ more))"
          by (rule Cons.IH)
        then show ?thesis using True Inr nc item by (auto simp add: called_def)
      next
        case (Inl e)
        let ?s1 = "called (Log_error source_id e) (called (Source_refresh source_id) ?s0)"
        let ?r = "reports @ [RefreshReport source_id '''' [e]]"
        have "(\<exists>after. calls (snd (refresh_loop env force (Suc i) rest ?r ?s1))
                  = calls ?s1 @ after)
         \<and> (\<forall>rs. fst (refresh_loop env force (Suc i) rest ?r ?s1) = Some rs
                \<longrightarrow> (\<exists>more. rs = ?r @ more))"
          by (rule Cons.IH)
        then show ?thesis using True Inl nc item by (auto simp add: called_def)
      qed
    qed
  qed
qed

lemma refresh_loop_passes:
  assumes "\<not> cancelled (warehouse s)" and "\<forall>j<length xs. \<not> cancel_arrives env (i + j)"
  shows "refresh_loop env force i (xs @ ys) reports s
     = refresh_loop env force (i + length xs) ys
         (reports @ concat (map (reports_of env force) xs))
         (s\<lparr>calls := calls s @ concat (map (calls_of env force) xs)\<rparr>)"
  using assms
proof (induction xs arbitrary: i reports s)
  case Nil
  then show ?case by simp
next
  case (Cons item rest)
  obtain source_id source where item: "item = (source_id, source)" by (cases item)
  have now: "interrupt env i s = s"
    using Cons.prems(2) by (auto simp add: interrupt_def)
  have later: "\<forall>j<length rest. \<not> cancel_arrives env (Suc i + j)"
    using Cons.prems(2) by auto
  show ?case
  proof (cases "force \<or> \<not> has_entries env source_id")
    case False
    have "refresh_loop env force (Suc i) (rest @ ys) reports s
       = refresh_loop env force (Suc i + length rest) ys
         (reports @ concat (map (reports_of env force) rest))
         (s\<lparr>calls := calls s @ concat (map (calls_of env force) rest)\<rparr>)"
      using Cons.prems(1) later by (rule Cons.IH)
    moreover have "reports_of env force (source_id, source) = []"
      and "calls_of env force (source_id, source) = []"
      using False by (simp_all add: reports_of_def calls_of_def)
    ultimately show ?thesis
      using False item now Cons.prems(1) by simp
  next
    case True
    show ?thesis
    proof (cases "source_refresh env source")
      case (Inr report)
      let ?s = "called (Source_refresh source_id) s"
      have "\<not> cancelled (warehouse ?s)" using Cons.prems(1) by (simp add: called_def)
      then have "refresh_loop env force (Suc i) (rest @ ys) (reports @ report) ?s
       = refresh_loop env force (Suc i + length rest) ys
         ((reports @ report) @ concat (map (reports_of env force) rest))
         (?s\<lparr>calls := calls ?s @ concat (map (calls_of env force) rest)\<rparr>)"
        using later by (rule Cons.IH)
      moreover have "reports_of env force (source_id, source) = report"
        and "calls_of env force (source_id, source) = [Source_refresh source_id]"
        using True Inr by (simp_all add: reports_of_def calls_of_def)
      ultimately show ?thesis
        using True Inr item now Cons.prems(1) by (simp add: called_def)
    next
      case (Inl e)
      let ?s = "called (Log_error source_id e) (called (Source_refresh source_id) s)"
      let ?r = "reports @ [RefreshReport source_id '''' [e]]"
      have "\<not> cancelled (warehouse ?s)" using Cons.prems(1) by (simp add: called_def)
      then have "refresh_loop env force (Suc i) (rest @ ys) ?r ?s
       = refresh_loop env force (Suc i + length rest) ys
         (?r @ concat (map (reports_of env force) rest))
         (?s\<lparr>calls := calls ?s @ concat (map (calls_of env force) rest)\<rparr>)"
        using later by (rule Cons.IH)
      moreover have "reports_of env force (source_id, source) = [RefreshReport source_id '''' [e]]"
        and "calls_of env force (source_id, source)
               = [Source_refresh source_id, Log_error source_id e]"
        using True Inl by (simp_all add: reports_of_def calls_of_def)
      ultimately show ?thesis
        using True Inl item now Cons.prems(1) by (simp add: called_def)
    qed
  qed
qed

lemma refresh_passes:
  assumes "sources (warehouse s) = xs @ ys" and "\<forall>j<length xs. \<not> cancel_arrives env j"
  shows "refresh env force s
     = refresh_loop env force (length xs) ys (concat (map (reports_of env force) xs))
         ((reset s)\<lparr>calls := calls s @ concat (map (calls_of env force) xs)\<rparr>)"
proof -
  have "\<not> cancelled (warehouse (reset s))" by (simp add: reset_def)
  moreover have "\<forall>j<length xs. \<not> cancel_arrives env (0 + j)" using assms(2) by simp
  ultimately have "refresh_loop env force 0 (xs @ ys) [] (reset s)
     = refresh_loop env force (0 + length xs) ys ([] @ concat (map (reports_of env force) xs))
         ((reset s)\<lparr>calls := calls (reset s) @ concat (map (calls_of env force) xs)\<rparr>)"
    by (rule refresh_loop_passes)
  moreover have "sources (warehouse (reset s)) = xs @ ys" using assms(1) by (simp add: reset_def)
  moreover have "calls (reset s) = calls s" by (simp add: reset_def)
  ultimately show ?thesis by (simp add: refresh_def)
qed

lemma refresh_reaches:
  assumes "sources (warehouse s) = xs @ ys" and "\<forall>j<length xs. \<not> cancel_arrives env j"
  shows "(\<exists>after. new_calls s (snd (refresh env force s))
                   = concat (map (calls_of env force) xs) @ after)
    \<and> (\<forall>rs. fst (refresh env force s) = Some rs
           \<longrightarrow> (\<exists>more. rs = concat (map (reports_of env force) xs) @ more))"
proof -
  let ?s' = "(reset s)\<lparr>calls := calls s @ concat (map (calls_of env force) xs)\<rparr>"
  let ?r = "concat (map (reports_of env force) xs)"
  have eq: "refresh env force s = refresh_loop env force (length xs) ys ?r ?s'"
    using assms by (rule refresh_passes)
  have ext: "(\<exists>after. calls (snd (refresh_loop env force (length xs) ys ?r ?s')) = calls ?s' @ after)
   \<and> (\<forall>rs. fst (refresh_loop env force (length xs) ys ?r ?s') = Some rs
          \<longrightarrow> (\<exists>more. rs = ?r @ more))"
    by (rule refresh_loop_extends)
  then obtain after where
    "calls (snd (refresh env force s)) = calls s @ concat (map (calls_of env force) xs) @ after"
    using eq by auto
  then have "new_calls s (snd (refresh env force s))
                   = concat (map (calls_of env force) xs) @ after"
    by (simp add: new_calls_def)
  then show ?thesis using ext eq by auto
qed

text \<open>
  C3: let a registered source be reached by the pass (no \<^verbatim>\<open>cancel()\<close> has arrived
  up to then), be due, and let its \<^verbatim>\<open>refresh()\<close> raise. Then the exception is
  caught and logged, and the pass goes on with the sources behind it exactly as the loop does
  from there, a report for the source with the text of the exception as its only error appended
  to the reports gathered so far. This holds whether or not the pass is cancelled later: the
  call of the source and the entry in the log are among the calls of the pass; every list that
  the pass returns holds the report at its place; every later source that is due and is reached
  before a cancellation is refreshed; and a pass in which no cancellation is seen returns a
  list with the report in it.
\<close>

theorem refresh_failure_contained:
  assumes "sources (warehouse s) = pre @ (source_id, source) # post"
    and "\<forall>j\<le>length pre. \<not> cancel_arrives env j"
    and "force \<or> \<not> has_entries env source_id"
    and "source_refresh env source = Inl e"
  shows "refresh env force s
      = refresh_loop env force (Suc (length pre)) post
          (concat (map (reports_of env force) pre) @ [RefreshReport source_id '''' [e]])
          ((reset s)\<lparr>calls := calls s @ concat (map (calls_of env force) pre)
                                  @ [Source_refresh source_id, Log_error source_id e]\<rparr>)
    \<and> (\<exists>after. new_calls s (snd (refresh env force s))
          = concat (map (calls_of env force) pre)
            @ [Source_refresh source_id, Log_error source_id e] @ after)
    \<and> (\<forall>reports. fst (refresh env force s) = Some reports
          \<longrightarrow> (\<exists>more. reports = concat (map (reports_of env force) pre)
                          @ [RefreshReport source_id '''' [e]] @ more))
    \<and> (\<forall>k<length post.
          (\<forall>j\<le>length pre + Suc k. \<not> cancel_arrives env j)
          \<longrightarrow> force \<or> \<not> has_entries env (fst (post ! k))
          \<longrightarrow> Source_refresh (fst (post ! k)) \<in> set (new_calls s (snd (refresh env force s))))
    \<and> ((\<forall>j<length (sources (warehouse s)). \<not> cancel_arrives env j)
          \<longrightarrow> (\<exists>reports. fst (refresh env force s) = Some reports
                  \<and> RefreshReport source_id '''' [e] \<in> set reports))"
proof -
  let ?item = "(source_id, source)"
  have r: "reports_of env force ?item = [RefreshReport source_id '''' [e]]"
    and c: "calls_of env force ?item = [Source_refresh source_id, Log_error source_id e]"
    using assms(3,4) by (simp_all add: reports_of_def calls_of_def)
  have split: "sources (warehouse s) = (pre @ [?item]) @ post" using assms(1) by simp
  have clear: "\<forall>j<length (pre @ [?item]). \<not> cancel_arrives env j"
    using assms(2) by (simp add: less_Suc_eq_le)
  have one: "refresh env force s
      = refresh_loop env force (Suc (length pre)) post
          (concat (map (reports_of env force) pre) @ [RefreshReport source_id '''' [e]])
          ((reset s)\<lparr>calls := calls s @ concat (map (calls_of env force) pre)
                                  @ [Source_refresh source_id, Log_error source_id e]\<rparr>)"
    using refresh_passes [OF split clear, of force] r c by simp
  have reach: "(\<exists>after. new_calls s (snd (refresh env force s))
                   = concat (map (calls_of env force) (pre @ [?item])) @ after)
    \<and> (\<forall>rs. fst (refresh env force s) = Some rs
           \<longrightarrow> (\<exists>more. rs = concat (map (reports_of env force) (pre @ [?item])) @ more))"
    using split clear by (rule refresh_reaches)
  have two: "\<exists>after. new_calls s (snd (refresh env force s))
          = concat (map (calls_of env force) pre)
            @ [Source_refresh source_id, Log_error source_id e] @ after"
    using reach c by simp
  have three: "\<forall>reports. fst (refresh env force s) = Some reports
          \<longrightarrow> (\<exists>more. reports = concat (map (reports_of env force) pre)
                          @ [RefreshReport source_id '''' [e]] @ more)"
    using reach r by simp
  have four: "\<forall>k<length post.
          (\<forall>j\<le>length pre + Suc k. \<not> cancel_arrives env j)
          \<longrightarrow> force \<or> \<not> has_entries env (fst (post ! k))
          \<longrightarrow> Source_refresh (fst (post ! k)) \<in> set (new_calls s (snd (refresh env force s)))"
  proof (intro allI impI)
    fix k
    assume k: "k < length post"
      and nc: "\<forall>j\<le>length pre + Suc k. \<not> cancel_arrives env j"
      and due: "force \<or> \<not> has_entries env (fst (post ! k))"
    let ?xs = "pre @ ?item # take (Suc k) post"
    have sp: "sources (warehouse s) = ?xs @ drop (Suc k) post" using assms(1) by simp
    have cl: "\<forall>j<length ?xs. \<not> cancel_arrives env j"
      using nc k by (simp add: less_Suc_eq_le min_def)
    obtain after where a: "new_calls s (snd (refresh env force s))
                   = concat (map (calls_of env force) ?xs) @ after"
      using refresh_reaches [OF sp cl, of force] by blast
    have "post ! k \<in> set (take (Suc k) post)"
      using k by (simp add: take_Suc_conv_app_nth)
    then have m: "post ! k \<in> set ?xs" by simp
    have "Source_refresh (fst (post ! k)) \<in> set (calls_of env force (post ! k))"
      using due by (simp add: calls_of_def)
    then have "Source_refresh (fst (post ! k)) \<in> set (concat (map (calls_of env force) ?xs))"
      using m by (simp only: set_concat set_map) blast
    then show "Source_refresh (fst (post ! k)) \<in> set (new_calls s (snd (refresh env force s)))"
      by (simp only: a set_append Un_iff simp_thms)
  qed
  have five: "(\<forall>j<length (sources (warehouse s)). \<not> cancel_arrives env j)
          \<longrightarrow> (\<exists>reports. fst (refresh env force s) = Some reports
                  \<and> RefreshReport source_id '''' [e] \<in> set reports)"
  proof
    assume a: "\<forall>j<length (sources (warehouse s)). \<not> cancel_arrives env j"
    have "fst (refresh env force s)
            = Some (concat (map (reports_of env force) (sources (warehouse s))))"
      using refresh_complete [OF a, of force] by simp
    moreover have "RefreshReport source_id '''' [e]
        \<in> set (concat (map (reports_of env force) (sources (warehouse s))))"
      using assms(1) r by simp
    ultimately show "\<exists>reports. fst (refresh env force s) = Some reports
                  \<and> RefreshReport source_id '''' [e] \<in> set reports"
      by blast
  qed
  show ?thesis using one two three four five by blast
qed

theorem refresh_failure_contained_witness:
  "sources (warehouse depot) = [(''a'', ContentSource ''a'')] @ (''b'', ContentSource ''b'') # []
   \<and> source_refresh calm (ContentSource ''b'') = Inl ''timed out''
   \<and> \<not> has_entries calm ''b''
   \<and> \<not> cancel_arrives calm 0 \<and> \<not> cancel_arrives calm 1
   \<and> fst (refresh calm False depot)
       = Some [RefreshReport ''a'' ''http://a/'' [], RefreshReport ''b'' '''' [''timed out'']]
   \<and> new_calls depot (snd (refresh calm False depot))
       = [Source_refresh ''a'', Source_refresh ''b'', Log_error ''b'' ''timed out'', Purge_expired]
   \<and> sources (warehouse depot) = [] @ (''a'', ContentSource ''a'') # [(''b'', ContentSource ''b'')]
   \<and> source_refresh stormy (ContentSource ''a'') = Inl ''boom''
   \<and> \<not> cancel_arrives stormy 0 \<and> cancel_arrives stormy 1
   \<and> new_calls depot (snd (refresh stormy False depot))
       = [Source_refresh ''a'', Log_error ''a'' ''boom'']
   \<and> new_calls depot (snd (refresh (stormy\<lparr>cancel_arrives := (\<lambda>_. False)\<rparr>) False depot))
       = [Source_refresh ''a'', Log_error ''a'' ''boom'',
          Source_refresh ''b'', Log_error ''b'' ''boom'', Purge_expired]"
  using refresh_failure_contained [where s = depot and env = calm
      and pre = "[(''a'', ContentSource ''a'')]" and source_id = "''b''"
      and source = "ContentSource ''b''" and post = "[]" and force = False and e = "''timed out''"]
    refresh_failure_contained [where s = depot and env = stormy
      and pre = "[]" and source_id = "''a''"
      and source = "ContentSource ''a''" and post = "[(''b'', ContentSource ''b'')]"
      and force = False and e = "''boom''"]
    refresh_failure_contained [where s = depot and env = "stormy\<lparr>cancel_arrives := (\<lambda>_. False)\<rparr>"
      and pre = "[]" and source_id = "''a''"
      and source = "ContentSource ''a''" and post = "[(''b'', ContentSource ''b'')]"
      and force = False and e = "''boom''"]
  by (simp add: scenario_defs refresh_unfold)


section \<open>Properties of the rounds\<close>

lemma dispatch_returns [simp]: "fst (dispatch env n c s) = Returned"
proof (induction c arbitrary: s)
  case Nil
  show ?case by simp
next
  case (Cons item rest)
  obtain source nectar_list where item: "item = (source, nectar_list)" by (cases item)
  let ?d = "deliver source (transport env n source nectar_list)
              (called (Downloader_download source nectar_list) s)"
  obtain out s' where f: "?d = (out, s')" by (cases ?d)
  then have "out = Returned"
    using deliver_returns [of source "transport env n source nectar_list"
        "called (Downloader_download source nectar_list) s"] by simp
  then show ?case using f item Cons.IH [of s'] by simp
qed

lemma loop_cancelled:
  "cancelled (warehouse s) \<Longrightarrow> download_loop env n rl s = (Returned, s)"
  by (subst download_loop.simps) simp

lemma collated_empty_heap:
  "fst (collated_loop rl [] h) = [] \<Longrightarrow> snd (collated_loop rl [] h) = h"
proof (induction rl arbitrary: h)
  case Nil
  show ?case by simp
next
  case (Cons request rest)
  obtain v r' where ns: "next_source (h request) = (v, r')" by (cases "next_source (h request)")
  show ?case
  proof (cases "downloaded (h request)")
    case True
    have "fst (collated_loop rest [] h) = []" using Cons.prems True by simp
    then have "snd (collated_loop rest [] h) = h" by (rule Cons.IH)
    then show ?thesis using True by simp
  next
    case False
    show ?thesis
    proof (cases v)
      case None
      have same: "h(request := r') = h"
        using next_source_None [of "h request"] ns None by simp
      have "fst (collated_loop rest [] h) = []" using Cons.prems False ns None same by simp
      then have "snd (collated_loop rest [] h) = h" by (rule Cons.IH)
      then show ?thesis using False ns None same by simp
    next
      case (Some source)
      let ?j = "DownloadRequest (snd source) (destination r') request"
      have "jobs_for (fst (collated_loop rest [(fst source, [?j])] (h(request := r')))) (fst source)
            = jobs_for [(fst source, [?j])] (fst source)
              @ jobs_for (fst (collated_loop rest [] (h(request := r')))) (fst source)"
        by (rule collated_loop_jobs)
      moreover have "fst (collated_loop rest [(fst source, [?j])] (h(request := r'))) = []"
        using Cons.prems False ns Some by simp
      ultimately show ?thesis by simp
    qed
  qed
qed

lemma loop_done:
  assumes "\<not> cancelled (warehouse s)" and "fst (collated rl (heap s)) = []"
  shows "download_loop env n rl s = (Returned, s)"
proof -
  have "snd (collated rl (heap s)) = heap s"
    using assms(2) collated_empty_heap [of rl "heap s"] by (simp add: collated_def)
  then show ?thesis using assms by (subst download_loop.simps) simp
qed

lemma loop_round:
  assumes "\<not> cancelled (warehouse s)" and "fst (collated rl (heap s)) \<noteq> []"
  shows "download_loop env n rl s
     = download_loop env (Suc n) rl
         (snd (dispatch env n (fst (collated rl (heap s)))
                 (s\<lparr>heap := snd (collated rl (heap s))\<rparr>)))"
  using assms by (subst download_loop.simps) (simp add: Let_def)

lemma download_loop_returns [simp]: "fst (download_loop env n rl s) = Returned"
proof (induction env n rl s rule: download_loop.induct)
  case (1 env n request_list s)
  show ?case
  proof (cases "cancelled (warehouse s)")
    case True
    then show ?thesis by (simp add: loop_cancelled)
  next
    case nc: False
    show ?thesis
    proof (cases "fst (collated request_list (heap s)) = []")
      case True
      then show ?thesis using nc by (simp add: loop_done)
    next
      case ne: False
      let ?x = "dispatch env n (fst (collated request_list (heap s)))
                  (s\<lparr>heap := snd (collated request_list (heap s))\<rparr>)"
      have "fst (download_loop env (Suc n) request_list (snd ?x)) = Returned"
        using nc ne by (rule "1.IH") simp_all
      then show ?thesis using nc ne by (simp add: loop_round)
    qed
  qed
qed

lemma download_loop_final:
  "cancelled (warehouse (snd (download_loop env n rl s)))
   \<or> fst (collated rl (heap (snd (download_loop env n rl s)))) = []"
proof (induction env n rl s rule: download_loop.induct)
  case (1 env n request_list s)
  show ?case
  proof (cases "cancelled (warehouse s)")
    case True
    then show ?thesis by (simp add: loop_cancelled)
  next
    case nc: False
    show ?thesis
    proof (cases "fst (collated request_list (heap s)) = []")
      case True
      then show ?thesis using nc by (simp add: loop_done)
    next
      case ne: False
      let ?x = "dispatch env n (fst (collated request_list (heap s)))
                  (s\<lparr>heap := snd (collated request_list (heap s))\<rparr>)"
      have "cancelled (warehouse (snd (download_loop env (Suc n) request_list (snd ?x))))
        \<or> fst (collated request_list
                 (heap (snd (download_loop env (Suc n) request_list (snd ?x))))) = []"
        using nc ne by (rule "1.IH") simp_all
      then show ?thesis using nc ne by (simp add: loop_round)
    qed
  qed
qed

lemma grows_refl [simp]: "grows s s"
  by (simp add: grows_def)

lemma grows_trans: "grows s s1 \<Longrightarrow> grows s1 s2 \<Longrightarrow> grows s s2"
  by (auto simp add: grows_def)

lemma grows_called [simp]: "grows s (called e s)"
  by (simp add: grows_def called_def)

lemma new_calls_called [simp]: "new_calls s (called e s) = [e]"
  by (simp add: new_calls_def called_def)

lemma new_calls_trans:
  "grows s s1 \<Longrightarrow> grows s1 s2 \<Longrightarrow> new_calls s s2 = new_calls s s1 @ new_calls s1 s2"
  by (auto simp add: grows_def new_calls_def)

lemma grows_notify [simp]: "grows s (snd (notify m r s))"
  by (simp add: notify_def invoke_def called_def grows_def split: outcome.splits)

lemma grows_fire [simp]: "grows s (snd (fire d e s))"
  by (cases e)
    (auto simp add: fire_def bridge_defs cancel_def grows_def split: option.splits outcome.splits)

lemma grows_deliver [simp]: "grows s (snd (deliver d es s))"
proof (induction es arbitrary: s)
  case Nil
  show ?case by simp
next
  case (Cons e es)
  obtain out s' where f: "fire d e s = (out, s')" by (cases "fire d e s")
  have g: "grows s s'" using grows_fire [of s d e] f by simp
  show ?case
  proof (cases out)
    case Returned
    have "grows s' (snd (deliver d es s'))" by (rule Cons.IH)
    with g have "grows s (snd (deliver d es s'))" by (rule grows_trans)
    then show ?thesis using f Returned by simp
  next
    case (Raised x)
    then show ?thesis using f g by simp
  qed
qed

lemma dispatch_batches:
  "grows s (snd (dispatch env n c s))
   \<and> (\<forall>item \<in> set c. Downloader_download (fst item) (snd item)
          \<in> set (new_calls s (snd (dispatch env n c s))))"
proof (induction c arbitrary: s)
  case Nil
  show ?case by simp
next
  case (Cons item rest)
  obtain source nectar_list where item: "item = (source, nectar_list)" by (cases item)
  let ?s0 = "called (Downloader_download source nectar_list) s"
  let ?s1 = "snd (deliver source (transport env n source nectar_list) ?s0)"
  let ?s2 = "snd (dispatch env n rest ?s1)"
  obtain out s' where f: "deliver source (transport env n source nectar_list) ?s0 = (out, s')"
    by (cases "deliver source (transport env n source nectar_list) ?s0")
  then have "out = Returned"
    using deliver_returns [of source "transport env n source nectar_list" ?s0] by simp
  then have whole: "snd (dispatch env n (item # rest) s) = ?s2"
    using item f by simp
  have g0: "grows s ?s0" by simp
  have g1: "grows ?s0 ?s1" by simp
  have IH: "grows ?s1 ?s2
   \<and> (\<forall>item \<in> set rest. Downloader_download (fst item) (snd item) \<in> set (new_calls ?s1 ?s2))"
    by (rule Cons.IH)
  have g01: "grows s ?s1" using g0 g1 by (rule grows_trans)
  have g: "grows s ?s2" using g01 IH by (blast intro: grows_trans)
  have n1: "new_calls s ?s1 = [Downloader_download source nectar_list] @ new_calls ?s0 ?s1"
    using new_calls_trans [OF g0 g1] by simp
  have n2: "new_calls s ?s2 = new_calls s ?s1 @ new_calls ?s1 ?s2"
    using g01 IH by (blast intro: new_calls_trans)
  show ?case using whole g n1 n2 IH item by auto
qed

lemma grows_download_loop: "grows s (snd (download_loop env n rl s))"
proof (induction env n rl s rule: download_loop.induct)
  case (1 env n request_list s)
  show ?case
  proof (cases "cancelled (warehouse s)")
    case True
    then show ?thesis by (simp add: loop_cancelled)
  next
    case nc: False
    show ?thesis
    proof (cases "fst (collated request_list (heap s)) = []")
      case True
      then show ?thesis using nc by (simp add: loop_done)
    next
      case ne: False
      let ?s0 = "s\<lparr>heap := snd (collated request_list (heap s))\<rparr>"
      let ?x = "dispatch env n (fst (collated request_list (heap s))) ?s0"
      have "grows (snd ?x) (snd (download_loop env (Suc n) request_list (snd ?x)))"
        using nc ne by (rule "1.IH") simp_all
      moreover have "grows ?s0 (snd ?x)" using dispatch_batches by blast
      moreover have "grows s ?s0" by (simp add: grows_def)
      ultimately have "grows s (snd (download_loop env (Suc n) request_list (snd ?x)))"
        by (blast intro: grows_trans)
      then show ?thesis using nc ne by (simp add: loop_round)
    qed
  qed
qed

lemma loop_round_batches:
  assumes nc: "\<not> cancelled (warehouse s)" and ne: "fst (collated rl (heap s)) \<noteq> []"
    and item: "item \<in> set (fst (collated rl (heap s)))"
  shows "Downloader_download (fst item) (snd item)
           \<in> set (new_calls s (snd (download_loop env n rl s)))"
proof -
  let ?s0 = "s\<lparr>heap := snd (collated rl (heap s))\<rparr>"
  let ?s1 = "snd (dispatch env n (fst (collated rl (heap s))) ?s0)"
  let ?s2 = "snd (download_loop env (Suc n) rl ?s1)"
  have g1: "grows ?s0 ?s1" using dispatch_batches by blast
  have g2: "grows ?s1 ?s2" by (rule grows_download_loop)
  have "Downloader_download (fst item) (snd item) \<in> set (new_calls ?s0 ?s1)"
    using dispatch_batches item by blast
  then have "Downloader_download (fst item) (snd item) \<in> set (new_calls ?s0 ?s2)"
    using new_calls_trans [OF g1 g2] by simp
  moreover have "new_calls s ?s2 = new_calls ?s0 ?s2" by (simp add: new_calls_def)
  ultimately show ?thesis using nc ne by (simp add: loop_round)
qed

lemma warehouse_called [simp]: "warehouse (called e s) = warehouse s"
  by (simp add: called_def)

lemma warehouse_notify [simp]: "warehouse (snd (notify m r s)) = warehouse s"
  by (simp add: notify_def invoke_def split: outcome.splits)

lemma cancelled_fire:
  "cancelled (warehouse (snd (fire d e s))) \<Longrightarrow> cancelled (warehouse s) \<or> e = Cancel_requested"
  by (cases e) (auto simp add: fire_def bridge_defs split: option.splits outcome.splits if_splits)

lemma cancelled_deliver:
  "cancelled (warehouse (snd (deliver d es s)))
     \<Longrightarrow> cancelled (warehouse s) \<or> Cancel_requested \<in> set es"
proof (induction es arbitrary: s)
  case Nil
  then show ?case by simp
next
  case (Cons e es)
  obtain out s' where f: "fire d e s = (out, s')" by (cases "fire d e s")
  then have out: "out = Returned" using fire_returns [of d e s] by simp
  then have "cancelled (warehouse (snd (deliver d es s')))" using Cons.prems f by simp
  then have "cancelled (warehouse s') \<or> Cancel_requested \<in> set es" by (rule Cons.IH)
  moreover have "cancelled (warehouse s') \<Longrightarrow> cancelled (warehouse s) \<or> e = Cancel_requested"
    using cancelled_fire [of d e s] f by simp
  ultimately show ?case by auto
qed

lemma cancelled_dispatch:
  "cancelled (warehouse (snd (dispatch env n c s)))
     \<Longrightarrow> cancelled (warehouse s) \<or> cancel_requested env"
proof (induction c arbitrary: s)
  case Nil
  then show ?case by simp
next
  case (Cons item rest)
  obtain source nectar_list where item: "item = (source, nectar_list)" by (cases item)
  let ?s0 = "called (Downloader_download source nectar_list) s"
  obtain out s' where f: "deliver source (transport env n source nectar_list) ?s0 = (out, s')"
    by (cases "deliver source (transport env n source nectar_list) ?s0")
  then have "out = Returned"
    using deliver_returns [of source "transport env n source nectar_list" ?s0] by simp
  then have "cancelled (warehouse (snd (dispatch env n rest s')))"
    using Cons.prems item f by simp
  then have "cancelled (warehouse s') \<or> cancel_requested env" by (rule Cons.IH)
  moreover have "cancelled (warehouse s')
     \<Longrightarrow> cancelled (warehouse ?s0) \<or> Cancel_requested \<in> set (transport env n source nectar_list)"
    using cancelled_deliver [of source "transport env n source nectar_list" ?s0] f by simp
  ultimately show ?case by (auto simp add: cancel_requested_def)
qed

lemma cancelled_download_loop:
  "cancelled (warehouse (snd (download_loop env n rl s)))
     \<Longrightarrow> cancelled (warehouse s) \<or> cancel_requested env"
proof (induction env n rl s rule: download_loop.induct)
  case (1 env n request_list s)
  show ?case
  proof (cases "cancelled (warehouse s)")
    case True
    then show ?thesis by simp
  next
    case nc: False
    show ?thesis
    proof (cases "fst (collated request_list (heap s)) = []")
      case True
      then show ?thesis using nc "1.prems" by (simp add: loop_done)
    next
      case ne: False
      let ?s0 = "s\<lparr>heap := snd (collated request_list (heap s))\<rparr>"
      let ?x = "dispatch env n (fst (collated request_list (heap s))) ?s0"
      have end': "cancelled (warehouse (snd (download_loop env (Suc n) request_list (snd ?x))))"
        using "1.prems" nc ne by (simp add: loop_round)
      have "cancelled (warehouse (snd ?x)) \<or> cancel_requested env"
        using nc ne _ _ end' by (rule "1.IH") simp_all
      moreover have "cancelled (warehouse (snd ?x))
         \<Longrightarrow> cancelled (warehouse ?s0) \<or> cancel_requested env"
        by (rule cancelled_dispatch)
      ultimately show ?thesis by auto
    qed
  qed
qed

lemma warehouse_find_all [simp]: "warehouse (find_all env primary rl s) = warehouse s"
proof -
  have "warehouse (fold (\<lambda>request s'. s'\<lparr>heap := (heap s')(request :=
             find_sources env primary (sources (warehouse s')) (heap s' request))\<rparr>) rl s)
        = warehouse s"
    by (induction rl arbitrary: s) simp_all
  then show ?thesis by (simp add: find_all_def)
qed

lemma reset_cancel [simp]: "reset (cancel s) = reset s"
  by (simp add: reset_def cancel_def)

lemma reset_reset [simp]: "reset (reset s) = reset s"
  by (simp add: reset_def)

lemma cancelled_refresh:
  assumes "cancelled (warehouse (snd (refresh env force s)))"
  shows "\<exists>j\<le>length (sources (warehouse s)). cancel_arrives env j"
proof (cases "\<exists>j<length (sources (warehouse s)). cancel_arrives env j")
  case True
  then show ?thesis by (auto intro: less_imp_le)
next
  case False
  have "\<not> cancelled (warehouse (reset s))" by (simp add: reset_def)
  moreover have "\<forall>j<length (sources (warehouse (reset s))). \<not> cancel_arrives env (0 + j)"
    using False by (simp add: reset_def)
  ultimately have "refresh_loop env force 0 (sources (warehouse (reset s))) [] (reset s)
     = (Some ([] @ concat (map (reports_of env force) (sources (warehouse (reset s))))),
        called Purge_expired (interrupt env (0 + length (sources (warehouse (reset s))))
          ((reset s)\<lparr>calls := calls (reset s)
             @ concat (map (calls_of env force) (sources (warehouse (reset s))))\<rparr>)))"
    by (rule refresh_loop_complete)
  then have "cancel_arrives env (length (sources (warehouse s)))"
    using assms by (simp add: refresh_def reset_def interrupt_def cancel_def split: if_splits)
  then show ?thesis by blast
qed

text \<open>
  C4: at the start of a round the loop of \<^verbatim>\<open>download()\<close> ends when the flag is set,
  with no call made and the state as it was; it ends when the collation of the round is empty,
  again with nothing dispatched; otherwise the round dispatches the batch of every source of
  the collation. The loop always comes to an end without raising, and where it ends the flag is
  set or the collation is empty; \<^verbatim>\<open>download()\<close> as a whole returns without raising.
\<close>

theorem download_loop_exits:
  "(cancelled (warehouse s) \<longrightarrow> download_loop env n request_list s = (Returned, s))
   \<and> (\<not> cancelled (warehouse s) \<and> fst (collated request_list (heap s)) = []
        \<longrightarrow> download_loop env n request_list s = (Returned, s))
   \<and> (\<not> cancelled (warehouse s) \<and> fst (collated request_list (heap s)) \<noteq> []
        \<longrightarrow> (\<forall>item \<in> set (fst (collated request_list (heap s))).
               Downloader_download (fst item) (snd item)
                 \<in> set (new_calls s (snd (download_loop env n request_list s)))))
   \<and> fst (download_loop env n request_list s) = Returned
   \<and> (cancelled (warehouse (snd (download_loop env n request_list s)))
        \<or> fst (collated request_list (heap (snd (download_loop env n request_list s)))) = [])
   \<and> fst (download env request_list s) = Returned"
proof -
  have "fst (download env request_list s) = Returned"
    by (simp add: download_def Let_def)
  then show ?thesis
    using loop_cancelled [of s env n request_list] loop_done [of s request_list env n]
      loop_round_batches [of s request_list _ env n]
      download_loop_final [of env n request_list s]
    by (simp del: fst_conv snd_conv)
qed

theorem download_loop_exits_witness:
  "cancelled (warehouse (cancel depot))
   \<and> download_loop relay 0 [0] (cancel depot) = (Returned, cancel depot)
   \<and> \<not> cancelled (warehouse (idle None False (pkg 2)))
   \<and> fst (collated [0] (heap (idle None False (pkg 2)))) = []
   \<and> download_loop relay 0 [0] (idle None False (pkg 2)) = (Returned, idle None False (pkg 2))
   \<and> \<not> cancelled (warehouse depot)
   \<and> fst (collated [0] (heap depot))
       = [(ContentSource ''a'', [DownloadRequest ''http://a/pkg-1'' ''/var/lib/pkg-1'' 0])]
   \<and> Downloader_download (ContentSource ''a'')
         [DownloadRequest ''http://a/pkg-1'' ''/var/lib/pkg-1'' 0]
       \<in> set (new_calls depot (snd (download_loop relay 0 [0] depot)))"
  using download_loop_exits [of "cancel depot" relay 0 "[0]"]
    download_loop_exits [of "idle None False (pkg 2)" relay 0 "[0]"]
    download_loop_exits [of depot relay 0 "[0]"]
  by (simp add: collated_def next_source_def depot_def idle_def pkg_def cancel_def)

text \<open>
  C9: \<^verbatim>\<open>refresh()\<close> and \<^verbatim>\<open>download()\<close> clear the flag when they are
  entered: started with the flag set they do exactly what they do with the flag clear. A pass
  of \<^verbatim>\<open>refresh()\<close> started with the flag set ends early only if
  \<^verbatim>\<open>cancel()\<close> is called while it goes through the sources, and the flag is set
  after \<^verbatim>\<open>refresh()\<close> or \<^verbatim>\<open>download()\<close> only if
  \<^verbatim>\<open>cancel()\<close> was called during the pass.
\<close>

theorem cancel_before_pass_is_cleared:
  "refresh env force (cancel s) = refresh env force (reset s)
   \<and> download env request_list (cancel s) = download env request_list (reset s)
   \<and> (fst (refresh env force (cancel s)) = None
        \<longrightarrow> (\<exists>j<length (sources (warehouse s)). cancel_arrives env j))
   \<and> (cancelled (warehouse (snd (refresh env force (cancel s))))
        \<longrightarrow> (\<exists>j\<le>length (sources (warehouse s)). cancel_arrives env j))
   \<and> (cancelled (warehouse (snd (download env request_list (cancel s))))
        \<longrightarrow> (\<exists>j\<le>length (sources (warehouse s)). cancel_arrives env j) \<or> cancel_requested env)"
proof (intro conjI impI)
  show "refresh env force (cancel s) = refresh env force (reset s)"
    by (simp add: refresh_def)
  show "download env request_list (cancel s) = download env request_list (reset s)"
    by (simp add: download_def)
next
  assume none: "fst (refresh env force (cancel s)) = None"
  show "\<exists>j<length (sources (warehouse s)). cancel_arrives env j"
  proof (rule ccontr)
    assume "\<not> (\<exists>j<length (sources (warehouse s)). cancel_arrives env j)"
    then have "\<forall>j<length (sources (warehouse (cancel s))). \<not> cancel_arrives env j"
      by (simp add: cancel_def)
    then have "fst (refresh env force (cancel s)) \<noteq> None"
      using refresh_complete [of "cancel s" env force] by simp
    then show False using none by simp
  qed
next
  assume "cancelled (warehouse (snd (refresh env force (cancel s))))"
  then have "\<exists>j\<le>length (sources (warehouse (cancel s))). cancel_arrives env j"
    by (rule cancelled_refresh)
  then show "\<exists>j\<le>length (sources (warehouse s)). cancel_arrives env j"
    by (simp add: cancel_def)
next
  assume c: "cancelled (warehouse (snd (download env request_list (cancel s))))"
  let ?s2 = "snd (refresh env False (reset s))"
  let ?s3 = "find_all env PrimarySource request_list ?s2"
  have "cancelled (warehouse (snd (download_loop env 0 request_list ?s3)))"
    using c by (simp add: download_def Let_def)
  then have "cancelled (warehouse ?s3) \<or> cancel_requested env"
    by (rule cancelled_download_loop)
  moreover have "cancelled (warehouse ?s3)
      \<Longrightarrow> \<exists>j\<le>length (sources (warehouse s)). cancel_arrives env j"
    using cancelled_refresh [of env False "reset s"] by (simp add: reset_def)
  ultimately show "(\<exists>j\<le>length (sources (warehouse s)). cancel_arrives env j) \<or> cancel_requested env"
    by blast
qed

theorem cancel_before_pass_is_cleared_witness:
  "fst (refresh hasty False (cancel depot)) = None
   \<and> cancel_arrives hasty 1
   \<and> cancelled (warehouse (snd (refresh hasty False (cancel depot))))
   \<and> cancelled (warehouse (snd (download hasty [0] (cancel depot))))
   \<and> new_calls (cancel depot) (snd (download hasty [0] (cancel depot))) = [Source_refresh ''a'']
   \<and> fst (refresh calm False (cancel depot))
       = Some [RefreshReport ''a'' ''http://a/'' [], RefreshReport ''b'' '''' [''timed out'']]"
  using cancel_before_pass_is_cleared [of hasty False depot "[0]"]
    cancel_before_pass_is_cleared [of calm False depot "[0]"]
  by (simp add: download_def find_all_def loop_cancelled scenario_defs refresh_unfold)

end
